theory Spec2Isabelle
  imports Main
begin

section \<open>The streaming Connection facade and its transport fallback\<close>

text \<open>
  The class \<open>Connection\<close> keeps an ordered list of transport candidates, one active
  transport and four lifecycle states. It is modelled by explicit state passing: a record
  with one field per field of the class and one more field, \<open>effects\<close>, that lists in
  order every call the Connection makes on something outside itself (the logger, the static
  probe and the constructor of a transport class, the methods of a transport instance, the
  functions supplied by the consumer).

  The transports, the logger and the consumer's functions are not part of the class. The
  model takes them as follows:
  \<^item> the three transport classes are a datatype; what their static \<open>isSupported()\<close>
    answers and which optional members their instances have is a parameter (\<open>env\<close>);
    \<open>isSupported()\<close> is a function of the class alone;
  \<^item> a call on a transport, on the logger or of a consumer function returns normally and
    does not call back into the Connection before it returns;
  \<^item> the string constants of the module \<open>transportTypes\<close> are a parameter
    (\<open>transportTypes\<close>);
  \<^item> the identifiers in \<open>options.transport\<close> are of the declared type
    \<open>TransportTypes\<close>: none of them names a member that every object inherits, so
    what \<open>getSupportedTransports\<close> pushes for them is an entry of the registry. What
    the same loop does on a list of arbitrary strings is \<open>getSupportedTransports_any\<close>.
\<close>

subsection \<open>Values\<close>

datatype jsval =
    JUndefined
  | JNull
  | JBool bool
  | JNum int
  | JStr string
  | JStrs "string list"

type_synonym jsobject = "string \<rightharpoonup> jsval"

text \<open>The object spread \<open>{...a, ...b}\<close>: the keys of both, \<open>b\<close> winning where both have one.\<close>

definition spread :: "jsobject \<Rightarrow> jsobject \<Rightarrow> jsobject" where
  "spread a b = a ++ b"

subsection \<open>Transport classes, registry entries, transport instances\<close>

datatype transport_class = WebsocketTransport | SignalrTransport | SignalrCoreTransport

record transportTypes =
  SIGNALR_CORE_WEBSOCKETS :: string
  SIGNALR_CORE_LONG_POLLING :: string
  PLAIN_WEBSOCKETS :: string
  LEGACY_SIGNALR_WEBSOCKETS :: string
  LEGACY_SIGNALR_LONG_POLLING :: string

record entry =
  entry_options :: jsobject
  entry_instance :: transport_class

record env =
  isSupported :: "transport_class \<Rightarrow> bool"
  has_onOrphanFound :: "transport_class \<Rightarrow> bool"
  has_onSubscribeNetworkError :: "transport_class \<Rightarrow> bool"
  hasOwn_getTransport :: "transport_class \<Rightarrow> bool"

text \<open>The one failure handler of a Connection, the arrow function \<open>this.onTransportFail\<close>.\<close>

datatype handler = OnTransportFail

text \<open>
  A transport instance, \<open>new SelectedTransport(baseUrl, this.onTransportFail)\<close>, as what
  it was built from: the position in the candidate list, the class and the two arguments.
\<close>

record transport_obj =
  origin :: nat
  variant :: transport_class
  url :: string
  failHandler :: handler

subsection \<open>Callbacks\<close>

text \<open>
  A function that is not made by the Connection is the constant \<open>NOOP\<close> or a function of
  the consumer, named by a number. A callback slot, and a transport, holds such a function
  as it is (\<open>Raw\<close>), or \<open>this.ensureValidState.bind(this, callback, callbackType)\<close>
  (\<open>Guarded\<close>).
\<close>

datatype fn = NOOP | Consumer nat

datatype callback = Raw fn | Guarded fn string

subsection \<open>Effects\<close>

datatype log_level = Debug | Info | Warn | Error

datatype detail =
    D_url string
  | D_index "nat option"
  | D_contextId jsval
  | D_enabledTransports "jsval option"
  | D_error "jsval option"
  | D_name transport_obj
  | D_authExpiry jsval
  | D_callback string
  | D_transport transport_obj

datatype transport_call =
    SetReceivedCallback callback
  | SetStateChangedCallback callback
  | SetUnauthorizedCallback "callback option"
  | SetConnectionSlowCallback callback
  | UpdateQuery jsval jsval jsval "bool option"
  | Start jsobject "callback option"
  | Stop
  | GetQuery
  | OnOrphanFound
  | OnSubscribeNetworkError
  | GetTransport

datatype event =
    Log log_level string "detail list"
  | IsSupportedCalled nat transport_class
  | Constructed transport_obj
  | TransportCall transport_obj transport_call
  | FailCallbackCalled fn
  | Called fn "jsval list"

datatype conn_state = STATE_CREATED | STATE_STARTED | STATE_STOPPED | STATE_DISPOSED

datatype outcome = Normal | TypeError

subsection \<open>The class\<close>

record connection =
  baseUrl :: string
  failCallback :: fn
  startCallback :: "callback option"
  stateChangedCallback :: callback
  receiveCallback :: callback
  connectionSlowCallback :: callback
  authToken :: jsval
  authExpiry :: jsval
  contextId :: jsval
  options :: jsobject
  transports :: "entry list"
  state :: conn_state
  transportIndex :: "nat option"
  transport :: "transport_obj option"
  unauthorizedCallback :: "callback option"
  effects :: "event list"

definition emit :: "event \<Rightarrow> connection \<Rightarrow> connection" where
  "emit e c = c\<lparr>effects := effects c @ [e]\<rparr>"

definition DEFAULT_TRANSPORTS :: "transportTypes \<Rightarrow> string list" where
  "DEFAULT_TRANSPORTS T = [PLAIN_WEBSOCKETS T, LEGACY_SIGNALR_WEBSOCKETS T]"

text \<open>
  The own properties of the object literal with computed keys: the properties are set in
  the order written, a later one replacing an earlier one with the same key. What reading
  a property of the object by an arbitrary name gives is \<open>read_TRANSPORT_NAME_MAP\<close>
  below.
\<close>

definition TRANSPORT_NAME_MAP :: "transportTypes \<Rightarrow> string \<rightharpoonup> entry" where
  "TRANSPORT_NAME_MAP T =
     [SIGNALR_CORE_WEBSOCKETS T \<mapsto>
        \<lparr>entry_options = [''transportType'' \<mapsto> JStr (SIGNALR_CORE_WEBSOCKETS T),
                           ''skipNegotiation'' \<mapsto> JBool True],
         entry_instance = SignalrCoreTransport\<rparr>,
      SIGNALR_CORE_LONG_POLLING T \<mapsto>
        \<lparr>entry_options = [''transportType'' \<mapsto> JStr (SIGNALR_CORE_LONG_POLLING T),
                           ''skipNegotiation'' \<mapsto> JBool False],
         entry_instance = SignalrCoreTransport\<rparr>,
      PLAIN_WEBSOCKETS T \<mapsto>
        \<lparr>entry_options = Map.empty, entry_instance = WebsocketTransport\<rparr>,
      LEGACY_SIGNALR_WEBSOCKETS T \<mapsto>
        \<lparr>entry_options = Map.empty, entry_instance = SignalrTransport\<rparr>,
      LEGACY_SIGNALR_LONG_POLLING T \<mapsto>
        \<lparr>entry_options = Map.empty, entry_instance = SignalrTransport\<rparr>]"

definition getLogDetails :: "connection \<Rightarrow> detail list" where
  "getLogDetails c =
     [D_url (baseUrl c), D_index (transportIndex c), D_contextId (contextId c),
      D_enabledTransports (options c ''transport'')]"

text \<open>Calling a function that is not the Connection's own.\<close>

definition call_fn :: "fn \<Rightarrow> jsval list \<Rightarrow> connection \<Rightarrow> connection" where
  "call_fn f args c = emit (Called f args) c"

text \<open>
  \<open>ensureValidState\<close>. The detail object of the warning reads \<open>this.transport.name\<close>, which
  throws a TypeError when \<open>this.transport\<close> is null; the arguments of \<open>log.warn\<close> are
  evaluated before the call, so nothing is logged then.
\<close>

definition ensureValidState ::
    "fn \<Rightarrow> string \<Rightarrow> jsval list \<Rightarrow> connection \<Rightarrow> outcome \<times> connection" where
  "ensureValidState callback callbackType args c =
     (if state c = STATE_DISPOSED then
        (case transport c of
           None \<Rightarrow> (TypeError, c)
         | Some tr \<Rightarrow>
             (Normal,
              emit (Log Warn ''callback called after transport was disposed''
                      [D_callback callbackType, D_transport tr, D_contextId (contextId c)]) c))
      else (Normal, call_fn callback args c))"

text \<open>What happens when somebody calls the value of a callback slot.\<close>

fun invoke :: "callback \<Rightarrow> jsval list \<Rightarrow> connection \<Rightarrow> outcome \<times> connection" where
  "invoke (Raw f) args c = (Normal, call_fn f args c)"
| "invoke (Guarded f callbackType) args c = ensureValidState f callbackType args c"

subsection \<open>The fallback cursor\<close>

definition next_index :: "connection \<Rightarrow> nat" where
  "next_index c = (case transportIndex c of None \<Rightarrow> 0 | Some i \<Rightarrow> i + 1)"

function createTransport ::
    "env \<Rightarrow> string \<Rightarrow> connection \<Rightarrow> transport_obj option \<times> connection" where
  "createTransport E baseUrl' c =
     (let c1 = c\<lparr>transportIndex := Some (next_index c)\<rparr>;
          i = next_index c
      in if int i > int (length (transports c1)) - 1 then (None, c1)
         else
           let SelectedTransport = entry_instance (transports c1 ! i);
               c2 = emit (IsSupportedCalled i SelectedTransport) c1
           in if \<not> isSupported E SelectedTransport then createTransport E baseUrl' c2
              else
                let tr = \<lparr>origin = i, variant = SelectedTransport, url = baseUrl',
                          failHandler = OnTransportFail\<rparr>
                in (Some tr, emit (Constructed tr) c2))"
  by pat_completeness auto
termination
  by (relation "measure (\<lambda>(E, u, c). Suc (length (transports c)) - next_index c)")
     (auto simp: next_index_def emit_def split: option.splits)

declare createTransport.simps [simp del]

text \<open>
  The loop of \<open>getSupportedTransports\<close>, \<open>supported\<close> being the list built so far, on
  identifiers of the declared type \<open>TransportTypes\<close>.
\<close>

fun collect :: "transportTypes \<Rightarrow> string list \<Rightarrow> entry list \<Rightarrow> entry list" where
  "collect T [] supported = supported"
| "collect T (transportName # rest) supported =
     (case TRANSPORT_NAME_MAP T transportName of
        Some e \<Rightarrow> collect T rest (supported @ [e])
      | None \<Rightarrow> collect T rest supported)"

definition getSupportedTransports ::
    "transportTypes \<Rightarrow> string list option \<Rightarrow> entry list" where
  "getSupportedTransports T requestedTransports =
     (let transportNames =
            (case requestedTransports of None \<Rightarrow> DEFAULT_TRANSPORTS T | Some ns \<Rightarrow> ns)
      in collect T transportNames [])"

text \<open>
  The same loop on a list of arbitrary strings, as a caller that is not type-checked can
  pass. \<open>TRANSPORT_NAME_MAP\<close> is a plain object, so \<open>TRANSPORT_NAME_MAP[transportName]\<close>
  is the own property of that name if there is one, else the member of that name that the
  object inherits from \<open>Object.prototype\<close> if there is one, else \<open>undefined\<close>. The
  inherited members (those of the standard, with its annex for browsers) are functions,
  and \<open>__proto__\<close> is the prototype object: all are truthy, and none has a property
  \<open>options\<close> or \<open>instance\<close>.
\<close>

definition Object_prototype_members :: "string list" where
  "Object_prototype_members =
     [''constructor'', ''hasOwnProperty'', ''isPrototypeOf'', ''propertyIsEnumerable'',
      ''toLocaleString'', ''toString'', ''valueOf'', ''__proto__'', ''__defineGetter__'',
      ''__defineSetter__'', ''__lookupGetter__'', ''__lookupSetter__'']"

datatype property_value = Registry_entry entry | Inherited_member string

definition read_TRANSPORT_NAME_MAP :: "transportTypes \<Rightarrow> string \<Rightarrow> property_value option" where
  "read_TRANSPORT_NAME_MAP T transportName =
     (case TRANSPORT_NAME_MAP T transportName of
        Some e \<Rightarrow> Some (Registry_entry e)
      | None \<Rightarrow>
          if transportName \<in> set Object_prototype_members
          then Some (Inherited_member transportName)
          else None)"

fun collect_any ::
    "transportTypes \<Rightarrow> string list \<Rightarrow> property_value list \<Rightarrow> property_value list" where
  "collect_any T [] supported = supported"
| "collect_any T (transportName # rest) supported =
     (case read_TRANSPORT_NAME_MAP T transportName of
        Some v \<Rightarrow> collect_any T rest (supported @ [v])
      | None \<Rightarrow> collect_any T rest supported)"

definition getSupportedTransports_any ::
    "transportTypes \<Rightarrow> string list option \<Rightarrow> property_value list" where
  "getSupportedTransports_any T requestedTransports =
     (let transportNames =
            (case requestedTransports of None \<Rightarrow> DEFAULT_TRANSPORTS T | Some ns \<Rightarrow> ns)
      in collect_any T transportNames [])"

text \<open>
  \<open>this.options.transport\<close>, of type \<open>Array<TransportTypes> | undefined\<close>: an array of
  identifiers, or nothing.
\<close>

definition options_transport :: "jsobject \<Rightarrow> string list option" where
  "options_transport opts =
     (case opts ''transport'' of Some (JStrs ns) \<Rightarrow> Some ns | _ \<Rightarrow> None)"

text \<open>
  \<open>this.transports[this.transportIndex].options\<close>; reading \<open>options\<close> of \<open>undefined\<close>
  throws, which is \<open>None\<close> here.
\<close>

definition candidate_options :: "connection \<Rightarrow> jsobject option" where
  "candidate_options c =
     (case transportIndex c of
        None \<Rightarrow> None
      | Some i \<Rightarrow> if i < length (transports c) then Some (entry_options (transports c ! i))
                  else None)"

subsection \<open>Constructor and failure handler\<close>

definition Connection ::
    "env \<Rightarrow> transportTypes \<Rightarrow> jsobject \<Rightarrow> string \<Rightarrow> fn option \<Rightarrow> connection" where
  "Connection E T options' baseUrl' failCallback' =
     (let fc = (case failCallback' of None \<Rightarrow> NOOP | Some f \<Rightarrow> f);
          c0 = \<lparr>baseUrl = baseUrl',
                failCallback = fc,
                startCallback = Some (Raw NOOP),
                stateChangedCallback = Raw NOOP,
                receiveCallback = Raw NOOP,
                connectionSlowCallback = Raw NOOP,
                authToken = JNull,
                authExpiry = JNull,
                contextId = JNull,
                options = options',
                transports = getSupportedTransports T (options_transport options'),
                state = STATE_CREATED,
                transportIndex = None,
                transport = None,
                unauthorizedCallback = None,
                effects = []\<rparr>;
          (t, c1) = createTransport E (baseUrl c0) c0;
          c2 = c1\<lparr>transport := t\<rparr>
      in case t of
           None \<Rightarrow>
             emit (FailCallbackCalled fc)
               (emit (Log Error
                        ''Unable to setup initial transport. Supported Transport not found.''
                        (getLogDetails c2)) c2)
         | Some tr \<Rightarrow> emit (Log Debug ''Supported Transport found'' [D_name tr]) c2)"

definition onTransportFail ::
    "env \<Rightarrow> jsval option \<Rightarrow> connection \<Rightarrow> outcome \<times> connection" where
  "onTransportFail E error c =
     (let c1 = emit (Log Info ''Transport failed'' (D_error error # getLogDetails c)) c;
          (t, c2) = createTransport E (baseUrl c1) c1;
          c3 = c2\<lparr>transport := t\<rparr>
      in case t of
           None \<Rightarrow>
             (Normal,
              emit (FailCallbackCalled (failCallback c3))
                (emit (Log Warn ''Next supported Transport not found''
                         (D_error error # getLogDetails c3)) c3))
         | Some tr \<Rightarrow>
             let c4 = emit (Log Debug ''Next supported Transport found'' [D_name tr]) c3;
                 c5 = emit (TransportCall tr (SetReceivedCallback (receiveCallback c4))) c4;
                 c6 = emit (TransportCall tr (SetStateChangedCallback (stateChangedCallback c5))) c5;
                 c7 = emit (TransportCall tr (SetUnauthorizedCallback (unauthorizedCallback c6))) c6;
                 c8 = emit (TransportCall tr
                              (SetConnectionSlowCallback (connectionSlowCallback c7))) c7
             in if state c8 = STATE_STARTED then
                  let c9 = emit (TransportCall tr
                                   (UpdateQuery (authToken c8) (contextId c8) (authExpiry c8)
                                      None)) c8
                  in (case candidate_options c9 of
                        None \<Rightarrow> (TypeError, c9)
                      | Some transportOptions \<Rightarrow>
                          (Normal,
                           emit (TransportCall tr
                                   (Start (spread transportOptions (options c9))
                                      (startCallback c9))) c9))
                else (Normal, c8))"

subsection \<open>Public operations\<close>

definition setUnauthorizedCallback :: "fn \<Rightarrow> connection \<Rightarrow> connection" where
  "setUnauthorizedCallback callback c =
     (case transport c of
        None \<Rightarrow> c
      | Some tr \<Rightarrow>
          let c1 = c\<lparr>unauthorizedCallback := Some (Guarded callback ''unauthorizedCallback'')\<rparr>
          in emit (TransportCall tr (SetUnauthorizedCallback (unauthorizedCallback c1))) c1)"

definition setStateChangedCallback :: "fn \<Rightarrow> connection \<Rightarrow> connection" where
  "setStateChangedCallback callback c =
     (case transport c of
        None \<Rightarrow> c
      | Some tr \<Rightarrow>
          let c1 = c\<lparr>stateChangedCallback := Guarded callback ''stateChangedCallback''\<rparr>
          in emit (TransportCall tr (SetStateChangedCallback (stateChangedCallback c1))) c1)"

definition setReceivedCallback :: "fn \<Rightarrow> connection \<Rightarrow> connection" where
  "setReceivedCallback callback c =
     (case transport c of
        None \<Rightarrow> c
      | Some tr \<Rightarrow>
          let c1 = c\<lparr>receiveCallback := Guarded callback ''receivedCallback''\<rparr>
          in emit (TransportCall tr (SetReceivedCallback (receiveCallback c1))) c1)"

definition setConnectionSlowCallback :: "fn \<Rightarrow> connection \<Rightarrow> connection" where
  "setConnectionSlowCallback callback c =
     (case transport c of
        None \<Rightarrow> c
      | Some tr \<Rightarrow>
          let c1 = c\<lparr>connectionSlowCallback := Guarded callback ''connectionSlowCallback''\<rparr>
          in emit (TransportCall tr
                     (SetConnectionSlowCallback (connectionSlowCallback c1))) c1)"

definition start :: "fn \<Rightarrow> connection \<Rightarrow> outcome \<times> connection" where
  "start callback c =
     (case transport c of
        None \<Rightarrow> (Normal, c)
      | Some tr \<Rightarrow>
          let c1 = c\<lparr>state := STATE_STARTED, startCallback := Some (Raw callback)\<rparr>
          in (case candidate_options c1 of
                None \<Rightarrow> (TypeError, c1)
              | Some transportOptions \<Rightarrow>
                  (Normal,
                   emit (TransportCall tr
                           (Start (spread transportOptions (options c1)) (startCallback c1)))
                     c1)))"

definition stop :: "connection \<Rightarrow> connection" where
  "stop c =
     (case transport c of
        None \<Rightarrow> c
      | Some tr \<Rightarrow> emit (TransportCall tr Stop) (c\<lparr>state := STATE_STOPPED\<rparr>))"

definition dispose :: "connection \<Rightarrow> connection" where
  "dispose c = c\<lparr>state := STATE_DISPOSED\<rparr>"

text \<open>
  \<open>updateQuery(authToken, contextId, authExpiry?, forceAuth = false)\<close>: an absent
  \<open>authExpiry\<close> is \<open>undefined\<close>, an absent \<open>forceAuth\<close> is \<open>false\<close>.
\<close>

definition updateQuery ::
    "string \<Rightarrow> string \<Rightarrow> int option \<Rightarrow> bool option \<Rightarrow> connection \<Rightarrow> connection" where
  "updateQuery authToken' contextId' authExpiry' forceAuth' c =
     (let forceAuth = (case forceAuth' of None \<Rightarrow> False | Some b \<Rightarrow> b);
          c1 = c\<lparr>authToken := JStr authToken',
                 contextId := JStr contextId',
                 authExpiry := (case authExpiry' of None \<Rightarrow> JUndefined | Some n \<Rightarrow> JNum n)\<rparr>;
          c2 = emit (Log Debug ''Connection update query''
                       [D_contextId (contextId c1), D_authExpiry (authExpiry c1)]) c1
      in case transport c2 of
           None \<Rightarrow> c2
         | Some tr \<Rightarrow>
             emit (TransportCall tr
                     (UpdateQuery (authToken c2) (contextId c2) (authExpiry c2)
                        (Some forceAuth))) c2)"

text \<open>The value \<open>getQuery\<close> returns is the transport's own and is not modelled.\<close>

definition getQuery :: "connection \<Rightarrow> connection" where
  "getQuery c =
     (case transport c of None \<Rightarrow> c | Some tr \<Rightarrow> emit (TransportCall tr GetQuery) c)"

definition onOrphanFound :: "env \<Rightarrow> connection \<Rightarrow> connection" where
  "onOrphanFound E c =
     (case transport c of
        None \<Rightarrow> c
      | Some tr \<Rightarrow>
          if has_onOrphanFound E (variant tr) then emit (TransportCall tr OnOrphanFound) c
          else c)"

definition onSubscribeNetworkError :: "env \<Rightarrow> connection \<Rightarrow> connection" where
  "onSubscribeNetworkError E c =
     (case transport c of
        None \<Rightarrow> c
      | Some tr \<Rightarrow>
          if has_onSubscribeNetworkError E (variant tr)
          then emit (TransportCall tr OnSubscribeNetworkError) c
          else c)"

datatype got_transport = Got_null | Got_inner transport_obj | Got_itself transport_obj

definition getTransport :: "env \<Rightarrow> connection \<Rightarrow> got_transport \<times> connection" where
  "getTransport E c =
     (case transport c of
        None \<Rightarrow> (Got_null, c)
      | Some tr \<Rightarrow>
          if hasOwn_getTransport E (variant tr)
          then (Got_inner tr, emit (TransportCall tr GetTransport) c)
          else (Got_itself tr, c))"

subsection \<open>Histories\<close>

text \<open>
  What can happen to a Connection after its construction: the consumer calls a public
  method, a transport calls the failure handler, or a transport calls a callback it holds.
\<close>

datatype action =
    A_start fn
  | A_stop
  | A_dispose
  | A_updateQuery string string "int option" "bool option"
  | A_getQuery
  | A_setUnauthorizedCallback fn
  | A_setStateChangedCallback fn
  | A_setReceivedCallback fn
  | A_setConnectionSlowCallback fn
  | A_getTransport
  | A_onOrphanFound
  | A_onSubscribeNetworkError
  | A_transportFail "jsval option"
  | A_transportInvokes callback "jsval list"

fun step :: "env \<Rightarrow> action \<Rightarrow> connection \<Rightarrow> outcome \<times> connection" where
  "step E (A_start f) c = start f c"
| "step E A_stop c = (Normal, stop c)"
| "step E A_dispose c = (Normal, dispose c)"
| "step E (A_updateQuery t x e f) c = (Normal, updateQuery t x e f c)"
| "step E A_getQuery c = (Normal, getQuery c)"
| "step E (A_setUnauthorizedCallback f) c = (Normal, setUnauthorizedCallback f c)"
| "step E (A_setStateChangedCallback f) c = (Normal, setStateChangedCallback f c)"
| "step E (A_setReceivedCallback f) c = (Normal, setReceivedCallback f c)"
| "step E (A_setConnectionSlowCallback f) c = (Normal, setConnectionSlowCallback f c)"
| "step E A_getTransport c = (Normal, snd (getTransport E c))"
| "step E A_onOrphanFound c = (Normal, onOrphanFound E c)"
| "step E A_onSubscribeNetworkError c = (Normal, onSubscribeNetworkError E c)"
| "step E (A_transportFail err) c = onTransportFail E err c"
| "step E (A_transportInvokes cb args) c = invoke cb args c"

text \<open>
  A thrown TypeError goes to the caller; the object stays as it was at the throw, and the
  next action finds it so.
\<close>

fun run :: "env \<Rightarrow> action list \<Rightarrow> connection \<Rightarrow> connection" where
  "run E [] c = c"
| "run E (a # as) c = run E as (snd (step E a c))"

subsection \<open>Notions used to state the properties\<close>

text \<open>The instance built from candidate \<open>i\<close> of the list \<open>ts\<close> for the endpoint \<open>u\<close>.\<close>

definition instance_at :: "entry list \<Rightarrow> string \<Rightarrow> nat \<Rightarrow> transport_obj" where
  "instance_at ts u i =
     \<lparr>origin = i, variant = entry_instance (ts ! i), url = u, failHandler = OnTransportFail\<rparr>"

text \<open>One call of \<open>isSupported()\<close> for each of the candidates \<open>m, ..., n - 1\<close>, in order.\<close>

definition probes :: "entry list \<Rightarrow> nat \<Rightarrow> nat \<Rightarrow> event list" where
  "probes ts m n = map (\<lambda>i. IsSupportedCalled i (entry_instance (ts ! i))) [m..<n]"

definition supported_at :: "env \<Rightarrow> entry list \<Rightarrow> nat \<Rightarrow> bool" where
  "supported_at E ts i = isSupported E (entry_instance (ts ! i))"

text \<open>Some candidate at position \<open>n\<close> or later reports supported.\<close>

definition viable_from :: "env \<Rightarrow> entry list \<Rightarrow> nat \<Rightarrow> bool" where
  "viable_from E ts n = list_ex (supported_at E ts) [n..<length ts]"

text \<open>Example values of the identifiers, and three environments.\<close>

definition example_types :: transportTypes where
  "example_types =
     \<lparr>SIGNALR_CORE_WEBSOCKETS = ''signalrCoreWebSockets'',
      SIGNALR_CORE_LONG_POLLING = ''signalrCoreLongPolling'',
      PLAIN_WEBSOCKETS = ''plainWebSockets'',
      LEGACY_SIGNALR_WEBSOCKETS = ''webSockets'',
      LEGACY_SIGNALR_LONG_POLLING = ''longPolling''\<rparr>"

definition env_where :: "(transport_class \<Rightarrow> bool) \<Rightarrow> env" where
  "env_where p =
     \<lparr>isSupported = p,
      has_onOrphanFound = (\<lambda>_. False),
      has_onSubscribeNetworkError = (\<lambda>_. False),
      hasOwn_getTransport = (\<lambda>_. False)\<rparr>"

text \<open>
  The callback that a call on a transport registers for the received, state-changed,
  unauthorized or connection-slow path, if it registers one.
\<close>

fun registered :: "event \<Rightarrow> callback option" where
  "registered (TransportCall t (SetReceivedCallback cb)) = Some cb"
| "registered (TransportCall t (SetStateChangedCallback cb)) = Some cb"
| "registered (TransportCall t (SetUnauthorizedCallback cb)) = cb"
| "registered (TransportCall t (SetConnectionSlowCallback cb)) = Some cb"
| "registered e = None"

text \<open>A guard wrapper, or the constant \<open>NOOP\<close> that the slots start with.\<close>

fun guard_or_noop :: "callback \<Rightarrow> bool" where
  "guard_or_noop (Raw f) = (f = NOOP)"
| "guard_or_noop (Guarded f kind) = True"

text \<open>
  Every callback in the four slots, and every callback registered on a transport so far,
  is a guard wrapper or \<open>NOOP\<close>.
\<close>

definition callbacks_guarded :: "connection \<Rightarrow> bool" where
  "callbacks_guarded c \<longleftrightarrow>
     guard_or_noop (receiveCallback c) \<and>
     guard_or_noop (stateChangedCallback c) \<and>
     guard_or_noop (connectionSlowCallback c) \<and>
     (case unauthorizedCallback c of None \<Rightarrow> True | Some cb \<Rightarrow> guard_or_noop cb) \<and>
     list_all (\<lambda>e. case registered e of None \<Rightarrow> True | Some cb \<Rightarrow> guard_or_noop cb)
       (effects c)"

text \<open>Which of the four setters an action of a history calls, if any.\<close>

definition calls_setReceivedCallback :: "action \<Rightarrow> bool" where
  "calls_setReceivedCallback a = (case a of A_setReceivedCallback f \<Rightarrow> True | _ \<Rightarrow> False)"

definition calls_setStateChangedCallback :: "action \<Rightarrow> bool" where
  "calls_setStateChangedCallback a =
     (case a of A_setStateChangedCallback f \<Rightarrow> True | _ \<Rightarrow> False)"

definition calls_setConnectionSlowCallback :: "action \<Rightarrow> bool" where
  "calls_setConnectionSlowCallback a =
     (case a of A_setConnectionSlowCallback f \<Rightarrow> True | _ \<Rightarrow> False)"

definition calls_setUnauthorizedCallback :: "action \<Rightarrow> bool" where
  "calls_setUnauthorizedCallback a =
     (case a of A_setUnauthorizedCallback f \<Rightarrow> True | _ \<Rightarrow> False)"

text \<open>
  The functions called as the total-failure callback, one for each call, and the instances
  constructed, both in order.
\<close>

fun fail_called :: "event list \<Rightarrow> fn list" where
  "fail_called [] = []"
| "fail_called (FailCallbackCalled f # es) = f # fail_called es"
| "fail_called (e # es) = fail_called es"

fun constructed :: "event list \<Rightarrow> transport_obj list" where
  "constructed [] = []"
| "constructed (Constructed t # es) = t # constructed es"
| "constructed (e # es) = constructed es"

text \<open>
  A history in which a failure report arrives only while the Connection holds a transport:
  the transports honour their contract, each reports failure at most once, and a transport
  that has not failed is the active one.
\<close>

fun reports_while_active :: "env \<Rightarrow> action list \<Rightarrow> connection \<Rightarrow> bool" where
  "reports_while_active E [] c = True"
| "reports_while_active E (a # as) c =
     ((case a of A_transportFail err \<Rightarrow> transport c \<noteq> None | _ \<Rightarrow> True) \<and>
      reports_while_active E as (snd (step E a c)))"

text \<open>
  The cursor is set; no instance was constructed from a position after it, and the
  positions of the constructed instances increase; the transport is the instance of the
  candidate at the cursor, the last one constructed, or null with the cursor past the end.
\<close>

definition cursor_inv :: "connection \<Rightarrow> bool" where
  "cursor_inv c \<longleftrightarrow>
     (case transportIndex c of
        None \<Rightarrow> False
      | Some i \<Rightarrow>
          sorted_wrt (<) (map origin (constructed (effects c))) \<and>
          list_all (\<lambda>x. x \<le> i) (map origin (constructed (effects c))) \<and>
          (case transport c of
             None \<Rightarrow> length (transports c) \<le> i
           | Some tr \<Rightarrow>
               i < length (transports c) \<and>
               tr = instance_at (transports c) (baseUrl c) i \<and>
               constructed (effects c) \<noteq> [] \<and>
               last (constructed (effects c)) = tr))"

text \<open>
  An example history: a Connection over plain websockets and then SignalR core websockets,
  with an option of its own that the second candidate also has a default for; the session
  is set and the Connection started.
\<close>

definition example_options :: jsobject where
  "example_options =
     [''transport'' \<mapsto> JStrs [''plainWebSockets'', ''signalrCoreWebSockets''],
      ''skipNegotiation'' \<mapsto> JBool False]"

definition example_connection :: connection where
  "example_connection =
     Connection (env_where (\<lambda>_. True)) example_types example_options
       ''https://example.test/streaming'' None"

definition example_started :: connection where
  "example_started =
     snd (start (Consumer 1) (updateQuery ''T1'' ''C1'' (Some 1000) None example_connection))"

definition example_stopped :: connection where
  "example_stopped = stop example_started"

section \<open>Properties\<close>

subsection \<open>The cursor search\<close>

lemma probes_step:
  "m < n \<Longrightarrow>
   probes ts m n = IsSupportedCalled m (entry_instance (ts ! m)) # probes ts (Suc m) n"
  by (simp add: probes_def upt_conv_Cons)

lemma probes_empty [simp]: "n \<le> m \<Longrightarrow> probes ts m n = []"
  by (simp add: probes_def)

text \<open>
  What one run of \<open>createTransport\<close> does, whatever the candidates: it changes the cursor
  and nothing else of the object, probes the candidates from the next position on, each
  once, and stops at the first supported one, which it constructs, or past the end.
\<close>

lemma createTransport_spec:
  "createTransport E u c = (r, c') \<Longrightarrow>
   \<exists>j. next_index c \<le> j \<and>
       c' = c\<lparr>transportIndex := Some j,
              effects := effects c
                @ probes (transports c) (next_index c) (case r of None \<Rightarrow> j | Some _ \<Rightarrow> Suc j)
                @ (case r of None \<Rightarrow> [] | Some t \<Rightarrow> [Constructed t])\<rparr> \<and>
       (\<forall>i. next_index c \<le> i \<and> i < j \<longrightarrow> \<not> supported_at E (transports c) i) \<and>
       (case r of
          None \<Rightarrow> j = max (next_index c) (length (transports c))
        | Some t \<Rightarrow> j < length (transports c) \<and> supported_at E (transports c) j \<and>
                    t = instance_at (transports c) u j)"
proof (induction E u c arbitrary: r c' rule: createTransport.induct)
  case (1 E u c)
  let ?n = "next_index c"
  let ?ts = "transports c"
  show ?case
  proof (cases "?n < length ?ts")
    case False
    with "1.prems" have "r = None" "c' = c\<lparr>transportIndex := Some ?n\<rparr>"
      by (auto simp: createTransport.simps[of E u c] Let_def)
    with False show ?thesis by (intro exI[of _ ?n]) (auto simp: max_def)
  next
    case inr: True
    let ?c1 = "c\<lparr>transportIndex := Some ?n\<rparr>"
    let ?c2 = "emit (IsSupportedCalled ?n (entry_instance (?ts ! ?n))) ?c1"
    have n2: "next_index ?c2 = Suc ?n" "transports ?c2 = ?ts"
      by (simp_all add: next_index_def emit_def)
    show ?thesis
    proof (cases "supported_at E ?ts ?n")
      case True
      with inr "1.prems" have "r = Some (instance_at ?ts u ?n)"
        "c' = emit (Constructed (instance_at ?ts u ?n)) ?c2"
        by (auto simp: createTransport.simps[of E u c] Let_def supported_at_def instance_at_def)
      with True inr show ?thesis
        by (intro exI[of _ ?n]) (auto simp: emit_def probes_step)
    next
      case False
      with inr "1.prems" have rec: "createTransport E u ?c2 = (r, c')"
        by (auto simp: createTransport.simps[of E u c] Let_def supported_at_def)
      let ?d2 = "emit (IsSupportedCalled ?n (entry_instance (transports ?c1 ! ?n))) ?c1"
      have eq: "?d2 = ?c2" by simp
      have g1: "\<not> int (length (transports ?c1)) - 1 < int ?n" using inr by simp
      have g2: "\<not> isSupported E (entry_instance (transports ?c1 ! ?n))"
        using False by (simp add: supported_at_def)
      have "\<exists>j. next_index ?d2 \<le> j \<and>
         c' = ?d2\<lparr>transportIndex := Some j,
                effects := effects ?d2
                  @ probes (transports ?d2) (next_index ?d2)
                      (case r of None \<Rightarrow> j | Some _ \<Rightarrow> Suc j)
                  @ (case r of None \<Rightarrow> [] | Some t \<Rightarrow> [Constructed t])\<rparr> \<and>
         (\<forall>i. next_index ?d2 \<le> i \<and> i < j \<longrightarrow> \<not> supported_at E (transports ?d2) i) \<and>
         (case r of
            None \<Rightarrow> j = max (next_index ?d2) (length (transports ?d2))
          | Some t \<Rightarrow> j < length (transports ?d2) \<and> supported_at E (transports ?d2) j \<and>
                      t = instance_at (transports ?d2) u j)"
        by (rule "1.IH"[OF refl refl g1 refl refl g2 rec[folded eq]])
      then obtain j where j: "Suc ?n \<le> j"
        "c' = ?c2\<lparr>transportIndex := Some j,
              effects := effects ?c2
                @ probes ?ts (Suc ?n) (case r of None \<Rightarrow> j | Some _ \<Rightarrow> Suc j)
                @ (case r of None \<Rightarrow> [] | Some t \<Rightarrow> [Constructed t])\<rparr>"
        "\<forall>i. Suc ?n \<le> i \<and> i < j \<longrightarrow> \<not> supported_at E ?ts i"
        "case r of
           None \<Rightarrow> j = max (Suc ?n) (length ?ts)
         | Some t \<Rightarrow> j < length ?ts \<and> supported_at E ?ts j \<and> t = instance_at ?ts u j"
        unfolding eq n2 by blast
      have un: "\<forall>i. ?n \<le> i \<and> i < j \<longrightarrow> \<not> supported_at E ?ts i"
        using j(3) False by (metis Suc_leI le_neq_implies_less)
      have pr: "probes ?ts ?n (case r of None \<Rightarrow> j | Some _ \<Rightarrow> Suc j) =
           IsSupportedCalled ?n (entry_instance (?ts ! ?n))
             # probes ?ts (Suc ?n) (case r of None \<Rightarrow> j | Some _ \<Rightarrow> Suc j)"
        using j(1) by (intro probes_step) (auto split: option.splits)
      show ?thesis
        using j(1) j(4) un inr
        by (intro exI[of _ j]) (simp add: pr j(2) emit_def split: option.splits)
    qed
  qed
qed

lemma createTransport_found:
  assumes "next_index c \<le> k" "k < length (transports c)"
    and "\<forall>i. next_index c \<le> i \<and> i < k \<longrightarrow> \<not> supported_at E (transports c) i"
    and "supported_at E (transports c) k"
  shows "createTransport E u c =
           (Some (instance_at (transports c) u k),
            c\<lparr>transportIndex := Some k,
              effects := effects c @ probes (transports c) (next_index c) (Suc k)
                @ [Constructed (instance_at (transports c) u k)]\<rparr>)"
proof -
  obtain r c' where rc: "createTransport E u c = (r, c')" by (cases "createTransport E u c")
  from createTransport_spec[OF rc] obtain j where j: "next_index c \<le> j"
     "c' = c\<lparr>transportIndex := Some j,
              effects := effects c
                @ probes (transports c) (next_index c) (case r of None \<Rightarrow> j | Some _ \<Rightarrow> Suc j)
                @ (case r of None \<Rightarrow> [] | Some t \<Rightarrow> [Constructed t])\<rparr>"
      "\<forall>i. next_index c \<le> i \<and> i < j \<longrightarrow> \<not> supported_at E (transports c) i"
       "case r of
          None \<Rightarrow> j = max (next_index c) (length (transports c))
        | Some t \<Rightarrow> j < length (transports c) \<and> supported_at E (transports c) j \<and>
                    t = instance_at (transports c) u j" by blast
  have "r \<noteq> None"
  proof
    assume "r = None"
    with j(4) have "length (transports c) \<le> j" by simp
    with j(3) assms show False by auto
  qed
  then obtain t where t: "r = Some t" by auto
  with j(4) have jl: "j < length (transports c)" "supported_at E (transports c) j"
    "t = instance_at (transports c) u j" by auto
  have "j = k"
  proof (rule ccontr)
    assume "j \<noteq> k"
    then consider "j < k" | "k < j" by linarith
    then show False using assms j(1) j(3) jl by cases auto
  qed
  with rc j(2) t jl show ?thesis by simp
qed

lemma createTransport_exhausted:
  assumes "\<not> viable_from E (transports c) (next_index c)"
  shows "createTransport E u c =
           (None,
            c\<lparr>transportIndex := Some (max (next_index c) (length (transports c))),
              effects := effects c
                @ probes (transports c) (next_index c) (length (transports c))\<rparr>)"
proof -
  obtain r c' where rc: "createTransport E u c = (r, c')" by (cases "createTransport E u c")
  from createTransport_spec[OF rc] obtain j where j: "next_index c \<le> j"
     "c' = c\<lparr>transportIndex := Some j,
              effects := effects c
                @ probes (transports c) (next_index c) (case r of None \<Rightarrow> j | Some _ \<Rightarrow> Suc j)
                @ (case r of None \<Rightarrow> [] | Some t \<Rightarrow> [Constructed t])\<rparr>"
       "case r of
          None \<Rightarrow> j = max (next_index c) (length (transports c))
        | Some t \<Rightarrow> j < length (transports c) \<and> supported_at E (transports c) j \<and>
                    t = instance_at (transports c) u j" by blast
  have "r = None"
  proof (cases r)
    case (Some t)
    with j(3) j(1) assms show ?thesis by (auto simp: viable_from_def list_ex_iff)
  qed simp
  with rc j show ?thesis by (auto simp: max_def)
qed


lemma viable_from_least:
  assumes "viable_from E ts n"
  obtains k where "n \<le> k" "k < length ts" "supported_at E ts k"
    "\<forall>i. n \<le> i \<and> i < k \<longrightarrow> \<not> supported_at E ts i"
proof -
  let ?P = "\<lambda>k. n \<le> k \<and> k < length ts \<and> supported_at E ts k"
  from assms have "\<exists>k. ?P k" by (auto simp: viable_from_def list_ex_iff)
  then have l: "?P (LEAST k. ?P k)" by (rule LeastI_ex)
  have m: "\<And>i. ?P i \<Longrightarrow> (LEAST k. ?P k) \<le> i" by (rule Least_le)
  have "\<forall>i. n \<le> i \<and> i < (LEAST k. ?P k) \<longrightarrow> \<not> supported_at E ts i"
  proof (intro allI impI notI)
    fix i assume a: "n \<le> i \<and> i < (LEAST k. ?P k)" "supported_at E ts i"
    with l have "?P i" by simp
    from m[OF this] a show False by simp
  qed
  with l that show thesis by blast
qed

lemma viable_fromI:
  "n \<le> k \<Longrightarrow> k < length ts \<Longrightarrow> supported_at E ts k \<Longrightarrow> viable_from E ts n"
  by (auto simp: viable_from_def list_ex_iff)

lemma example_candidates:
  "getSupportedTransports example_types
     (options_transport [''transport'' \<mapsto> JStrs [''webSockets'', ''longPolling'', ''plainWebSockets'']]) =
   [\<lparr>entry_options = Map.empty, entry_instance = SignalrTransport\<rparr>,
    \<lparr>entry_options = Map.empty, entry_instance = SignalrTransport\<rparr>,
    \<lparr>entry_options = Map.empty, entry_instance = WebsocketTransport\<rparr>]"
  by (simp add: getSupportedTransports_def options_transport_def TRANSPORT_NAME_MAP_def
      example_types_def)

lemma Connection_found:
  assumes "getSupportedTransports T (options_transport opts) = ts"
    and "k < length ts" "\<forall>i. i < k \<longrightarrow> \<not> supported_at E ts i" "supported_at E ts k"
  shows "Connection E T opts u f =
     \<lparr>baseUrl = u,
      failCallback = (case f of None \<Rightarrow> NOOP | Some g \<Rightarrow> g),
      startCallback = Some (Raw NOOP),
      stateChangedCallback = Raw NOOP,
      receiveCallback = Raw NOOP,
      connectionSlowCallback = Raw NOOP,
      authToken = JNull, authExpiry = JNull, contextId = JNull,
      options = opts, transports = ts, state = STATE_CREATED,
      transportIndex = Some k,
      transport = Some (instance_at ts u k),
      unauthorizedCallback = None,
      effects = probes ts 0 (Suc k) @
        [Constructed (instance_at ts u k),
         Log Debug ''Supported Transport found'' [D_name (instance_at ts u k)]]\<rparr>"
  unfolding Connection_def Let_def
  apply (subst createTransport_found[where k = k])
  using assms by (simp_all add: next_index_def emit_def)

text \<open>
  C6. Let the candidates \<open>0, ..., k - 1\<close> of a list report unsupported and candidate \<open>k\<close>
  report supported. A run of \<open>createTransport\<close> that starts at a position \<open>n \<le> k\<close>
  (\<open>0\<close> when the cursor is unset, one more than the cursor otherwise) calls
  \<open>isSupported()\<close> once on each candidate from \<open>n\<close> to \<open>k\<close>, constructs nothing but
  candidate \<open>k\<close>, with the endpoint and the failure handler, and leaves the cursor at
  \<open>k\<close>. A run whose starting position is past the last index returns null, the cursor at
  that position. A Connection constructed over such a list has the instance of candidate
  \<open>k\<close> as its transport.
\<close>

theorem createTransport_skips_unsupported:
  assumes "k < length ts"
    and "\<forall>i<k. \<not> isSupported E (entry_instance (ts ! i))"
    and "isSupported E (entry_instance (ts ! k))"
  shows
    "(transports c = ts \<and> (case transportIndex c of None \<Rightarrow> 0 | Some m \<Rightarrow> m + 1) = n \<and> n \<le> k \<longrightarrow>
        createTransport E u c =
          (Some (instance_at ts u k),
           c\<lparr>transportIndex := Some k,
             effects := effects c @ probes ts n (Suc k) @ [Constructed (instance_at ts u k)]\<rparr>)) \<and>
     ((case transportIndex d of None \<Rightarrow> 0 | Some m \<Rightarrow> m + 1) = n' \<and> length (transports d) \<le> n' \<longrightarrow>
        createTransport E u d = (None, d\<lparr>transportIndex := Some n'\<rparr>)) \<and>
     (getSupportedTransports T (options_transport opts) = ts \<longrightarrow>
        transport (Connection E T opts u f) = Some (instance_at ts u k) \<and>
        transportIndex (Connection E T opts u f) = Some k \<and>
        effects (Connection E T opts u f) =
          probes ts 0 (Suc k) @
          [Constructed (instance_at ts u k),
           Log Debug ''Supported Transport found'' [D_name (instance_at ts u k)]])"
proof (intro conjI impI)
  assume a: "transports c = ts \<and> (case transportIndex c of None \<Rightarrow> 0 | Some m \<Rightarrow> m + 1) = n \<and> n \<le> k"
  then have n: "next_index c = n" by (simp add: next_index_def)
  show "createTransport E u c =
          (Some (instance_at ts u k),
           c\<lparr>transportIndex := Some k,
             effects := effects c @ probes ts n (Suc k) @ [Constructed (instance_at ts u k)]\<rparr>)"
    using createTransport_found[of c k E u] a assms unfolding n
    by (simp add: supported_at_def)
next
  assume a: "(case transportIndex d of None \<Rightarrow> 0 | Some m \<Rightarrow> m + 1) = n' \<and> length (transports d) \<le> n'"
  then have n: "next_index d = n'" by (simp add: next_index_def)
  have "\<not> viable_from E (transports d) (next_index d)"
    using a unfolding n by (simp add: viable_from_def)
  from createTransport_exhausted[OF this, of u] a show
    "createTransport E u d = (None, d\<lparr>transportIndex := Some n'\<rparr>)"
    unfolding n by (simp add: max_def)
next
  assume a: "getSupportedTransports T (options_transport opts) = ts"
  note C = Connection_found[OF a assms(1), of E u f]
  have s: "\<forall>i. i < k \<longrightarrow> \<not> supported_at E ts i" "supported_at E ts k"
    using assms by (simp_all add: supported_at_def)
  show "transport (Connection E T opts u f) = Some (instance_at ts u k)"
    by (simp add: C[OF s])
  show "transportIndex (Connection E T opts u f) = Some k"
    by (simp add: C[OF s])
  show "effects (Connection E T opts u f) =
          probes ts 0 (Suc k) @
          [Constructed (instance_at ts u k),
           Log Debug ''Supported Transport found'' [D_name (instance_at ts u k)]]"
    by (simp add: C[OF s])
qed

theorem createTransport_skips_unsupported_witness:
  "transport
     (Connection (env_where (\<lambda>x. x = WebsocketTransport)) example_types
        [''transport'' \<mapsto> JStrs [''webSockets'', ''longPolling'', ''plainWebSockets'']]
        ''https://example.test/streaming'' None) =
   Some \<lparr>origin = 2, variant = WebsocketTransport, url = ''https://example.test/streaming'',
         failHandler = OnTransportFail\<rparr> \<and>
   effects
     (Connection (env_where (\<lambda>x. x = WebsocketTransport)) example_types
        [''transport'' \<mapsto> JStrs [''webSockets'', ''longPolling'', ''plainWebSockets'']]
        ''https://example.test/streaming'' None) =
   [IsSupportedCalled 0 SignalrTransport, IsSupportedCalled 1 SignalrTransport,
    IsSupportedCalled 2 WebsocketTransport,
    Constructed \<lparr>origin = 2, variant = WebsocketTransport,
                url = ''https://example.test/streaming'', failHandler = OnTransportFail\<rparr>,
    Log Debug ''Supported Transport found''
      [D_name \<lparr>origin = 2, variant = WebsocketTransport,
               url = ''https://example.test/streaming'', failHandler = OnTransportFail\<rparr>]]"
  using createTransport_skips_unsupported
    [where k = 2 and E = "env_where (\<lambda>x. x = WebsocketTransport)" and T = example_types
       and ts = "[\<lparr>entry_options = Map.empty, entry_instance = SignalrTransport\<rparr>,
            \<lparr>entry_options = Map.empty, entry_instance = SignalrTransport\<rparr>,
            \<lparr>entry_options = Map.empty, entry_instance = WebsocketTransport\<rparr>]"
       and opts = "[''transport'' \<mapsto> JStrs [''webSockets'', ''longPolling'', ''plainWebSockets'']]"
       and u = "''https://example.test/streaming''" and f = None]
  by (simp add: example_candidates env_where_def instance_at_def probes_def
      less_Suc_eq upt_rec[of 0] upt_rec[of 1] upt_rec[of 2] numeral_2_eq_2 numeral_3_eq_3)

subsection \<open>The candidate list\<close>

lemma collect_map_filter:
  "collect T names supported = supported @ List.map_filter (TRANSPORT_NAME_MAP T) names"
  by (induction names arbitrary: supported) (auto split: option.splits)

lemma getSupportedTransports_typed:
  "getSupportedTransports T requested =
     List.map_filter (TRANSPORT_NAME_MAP T)
       (case requested of None \<Rightarrow> DEFAULT_TRANSPORTS T | Some ns \<Rightarrow> ns)"
  by (simp add: getSupportedTransports_def collect_map_filter)

lemma collect_any_map_filter:
  "collect_any T names supported =
     supported @ List.map_filter (read_TRANSPORT_NAME_MAP T) names"
  by (induction names arbitrary: supported) (auto split: option.splits)

lemma read_not_inherited:
  "name \<notin> set Object_prototype_members \<Longrightarrow>
   read_TRANSPORT_NAME_MAP T name = map_option Registry_entry (TRANSPORT_NAME_MAP T name)"
  by (simp add: read_TRANSPORT_NAME_MAP_def split: option.splits)

lemma map_filter_not_inherited:
  "\<forall>name\<in>set names. name \<notin> set Object_prototype_members \<Longrightarrow>
   List.map_filter (read_TRANSPORT_NAME_MAP T) names =
     map Registry_entry (List.map_filter (TRANSPORT_NAME_MAP T) names)"
  by (induction names) (auto simp: read_not_inherited split: option.splits)

text \<open>
  On identifiers that name no inherited member, the loop on arbitrary strings builds the
  list that the loop on typed identifiers builds.
\<close>

lemma getSupportedTransports_any_typed:
  "\<forall>name\<in>set names. name \<notin> set Object_prototype_members \<Longrightarrow>
   getSupportedTransports_any T (Some names) =
     map Registry_entry (getSupportedTransports T (Some names))"
  by (simp add: getSupportedTransports_any_def collect_any_map_filter
      map_filter_not_inherited getSupportedTransports_typed)




subsection \<open>The failure handler\<close>

lemma onTransportFail_found:
  assumes "next_index c \<le> k" "k < length (transports c)"
    and "\<forall>i. next_index c \<le> i \<and> i < k \<longrightarrow> \<not> supported_at E (transports c) i"
    and "supported_at E (transports c) k"
  shows "onTransportFail E err c =
    (Normal,
     c\<lparr>transportIndex := Some k,
       transport := Some (instance_at (transports c) (baseUrl c) k),
       effects := effects c
         @ [Log Info ''Transport failed'' (D_error err # getLogDetails c)]
         @ probes (transports c) (next_index c) (Suc k)
         @ [Constructed (instance_at (transports c) (baseUrl c) k),
            Log Debug ''Next supported Transport found''
              [D_name (instance_at (transports c) (baseUrl c) k)],
            TransportCall (instance_at (transports c) (baseUrl c) k)
              (SetReceivedCallback (receiveCallback c)),
            TransportCall (instance_at (transports c) (baseUrl c) k)
              (SetStateChangedCallback (stateChangedCallback c)),
            TransportCall (instance_at (transports c) (baseUrl c) k)
              (SetUnauthorizedCallback (unauthorizedCallback c)),
            TransportCall (instance_at (transports c) (baseUrl c) k)
              (SetConnectionSlowCallback (connectionSlowCallback c))]
         @ (if state c = STATE_STARTED then
              [TransportCall (instance_at (transports c) (baseUrl c) k)
                 (UpdateQuery (authToken c) (contextId c) (authExpiry c) None),
               TransportCall (instance_at (transports c) (baseUrl c) k)
                 (Start (spread (entry_options (transports c ! k)) (options c))
                    (startCallback c))]
            else [])\<rparr>)"
proof -
  let ?c1 = "emit (Log Info ''Transport failed'' (D_error err # getLogDetails c)) c"
  have "createTransport E (baseUrl ?c1) ?c1 =
           (Some (instance_at (transports ?c1) (baseUrl ?c1) k),
            ?c1\<lparr>transportIndex := Some k,
              effects := effects ?c1 @ probes (transports ?c1) (next_index ?c1) (Suc k)
                @ [Constructed (instance_at (transports ?c1) (baseUrl ?c1) k)]\<rparr>)"
    by (rule createTransport_found) (use assms in \<open>simp_all add: emit_def next_index_def\<close>)
  then show ?thesis
    using assms(2)
    by (simp add: onTransportFail_def Let_def emit_def next_index_def candidate_options_def)
qed

lemma onTransportFail_exhausted:
  assumes "\<not> viable_from E (transports c) (next_index c)"
  shows "onTransportFail E err c =
    (Normal,
     c\<lparr>transportIndex := Some (max (next_index c) (length (transports c))),
       transport := None,
       effects := effects c
         @ [Log Info ''Transport failed'' (D_error err # getLogDetails c)]
         @ probes (transports c) (next_index c) (length (transports c))
         @ [Log Warn ''Next supported Transport not found''
              (D_error err #
               getLogDetails
                 (c\<lparr>transportIndex := Some (max (next_index c) (length (transports c)))\<rparr>)),
            FailCallbackCalled (failCallback c)]\<rparr>)"
proof -
  let ?c1 = "emit (Log Info ''Transport failed'' (D_error err # getLogDetails c)) c"
  have "createTransport E (baseUrl ?c1) ?c1 =
           (None,
            ?c1\<lparr>transportIndex := Some (max (next_index ?c1) (length (transports ?c1))),
              effects := effects ?c1
                @ probes (transports ?c1) (next_index ?c1) (length (transports ?c1))\<rparr>)"
    by (rule createTransport_exhausted) (use assms in \<open>simp_all add: emit_def next_index_def\<close>)
  then show ?thesis
    by (simp add: onTransportFail_def Let_def emit_def next_index_def getLogDetails_def)
qed

lemma example_connection_eq:
  "example_connection =
     \<lparr>baseUrl = ''https://example.test/streaming'',
      failCallback = NOOP,
      startCallback = Some (Raw NOOP),
      stateChangedCallback = Raw NOOP,
      receiveCallback = Raw NOOP,
      connectionSlowCallback = Raw NOOP,
      authToken = JNull, authExpiry = JNull, contextId = JNull,
      options = example_options,
      transports =
        [\<lparr>entry_options = Map.empty, entry_instance = WebsocketTransport\<rparr>,
         \<lparr>entry_options = [''transportType'' \<mapsto> JStr ''signalrCoreWebSockets'',
                            ''skipNegotiation'' \<mapsto> JBool True],
           entry_instance = SignalrCoreTransport\<rparr>],
      state = STATE_CREATED,
      transportIndex = Some 0,
      transport = Some \<lparr>origin = 0, variant = WebsocketTransport,
                         url = ''https://example.test/streaming'',
                         failHandler = OnTransportFail\<rparr>,
      unauthorizedCallback = None,
      effects =
        [IsSupportedCalled 0 WebsocketTransport,
         Constructed \<lparr>origin = 0, variant = WebsocketTransport,
                      url = ''https://example.test/streaming'',
                      failHandler = OnTransportFail\<rparr>,
         Log Debug ''Supported Transport found''
           [D_name \<lparr>origin = 0, variant = WebsocketTransport,
                    url = ''https://example.test/streaming'',
                    failHandler = OnTransportFail\<rparr>]]\<rparr>"
proof -
  have ts: "getSupportedTransports example_types (options_transport example_options) =
        [\<lparr>entry_options = Map.empty, entry_instance = WebsocketTransport\<rparr>,
         \<lparr>entry_options = [''transportType'' \<mapsto> JStr ''signalrCoreWebSockets'',
                            ''skipNegotiation'' \<mapsto> JBool True],
           entry_instance = SignalrCoreTransport\<rparr>]"
    by (simp add: getSupportedTransports_def options_transport_def example_options_def
        TRANSPORT_NAME_MAP_def example_types_def)
  show ?thesis
    unfolding example_connection_def
    by (subst Connection_found[OF ts, of 0])
       (simp_all add: supported_at_def env_where_def instance_at_def probes_def)
qed

lemma example_started_eq:
  "example_started =
     example_connection
       \<lparr>authToken := JStr ''T1'', contextId := JStr ''C1'', authExpiry := JNum 1000,
        state := STATE_STARTED, startCallback := Some (Raw (Consumer 1)),
        effects := effects example_connection @
          [Log Debug ''Connection update query'' [D_contextId (JStr ''C1''), D_authExpiry (JNum 1000)],
           TransportCall \<lparr>origin = 0, variant = WebsocketTransport,
                      url = ''https://example.test/streaming'',
                      failHandler = OnTransportFail\<rparr>
             (UpdateQuery (JStr ''T1'') (JStr ''C1'') (JNum 1000) (Some False)),
           TransportCall \<lparr>origin = 0, variant = WebsocketTransport,
                      url = ''https://example.test/streaming'',
                      failHandler = OnTransportFail\<rparr>
             (Start (spread Map.empty example_options) (Some (Raw (Consumer 1))))]\<rparr>"
  unfolding example_started_def example_connection_eq
  by (simp add: updateQuery_def start_def emit_def candidate_options_def Let_def)

text \<open>
  C3. When the state is started and the handler finds a next viable candidate \<open>k\<close>, it
  constructs the instance of candidate \<open>k\<close> and calls on it, in this order,
  \<open>setReceivedCallback\<close>, \<open>setStateChangedCallback\<close>, \<open>setUnauthorizedCallback\<close> and
  \<open>setConnectionSlowCallback\<close> with the values of the four slots, \<open>updateQuery\<close> with
  the stored \<open>authToken\<close>, \<open>contextId\<close> and \<open>authExpiry\<close>, and \<open>start\<close> with the
  options of candidate \<open>k\<close> overridden by the Connection's options and with the stored
  start callback. In the merge a key of the Connection's options wins. \<open>updateQuery\<close>
  stores the three session values it is given, and \<open>start\<close> stores the function it is
  given as it is.
\<close>

theorem fallback_replays_session_and_restarts:
  assumes "state c = STATE_STARTED"
    and "transports c = ts" and "baseUrl c = u"
    and "(case transportIndex c of None \<Rightarrow> 0 | Some m \<Rightarrow> m + 1) = n"
    and "n \<le> k" and "k < length ts"
    and "\<forall>i. n \<le> i \<and> i < k \<longrightarrow> \<not> isSupported E (entry_instance (ts ! i))"
    and "isSupported E (entry_instance (ts ! k))"
    and "tr = instance_at ts u k"
  shows
    "onTransportFail E err c =
       (Normal,
        c\<lparr>transportIndex := Some k,
          transport := Some tr,
          effects := effects c
            @ [Log Info ''Transport failed'' (D_error err # getLogDetails c)]
            @ probes ts n (Suc k)
            @ [Constructed tr,
               Log Debug ''Next supported Transport found'' [D_name tr],
               TransportCall tr (SetReceivedCallback (receiveCallback c)),
               TransportCall tr (SetStateChangedCallback (stateChangedCallback c)),
               TransportCall tr (SetUnauthorizedCallback (unauthorizedCallback c)),
               TransportCall tr (SetConnectionSlowCallback (connectionSlowCallback c)),
               TransportCall tr (UpdateQuery (authToken c) (contextId c) (authExpiry c) None),
               TransportCall tr
                 (Start (spread (entry_options (ts ! k)) (options c)) (startCallback c))]\<rparr>) \<and>
     spread defaults configured key =
       (case configured key of Some v \<Rightarrow> Some v | None \<Rightarrow> defaults key) \<and>
     authToken (updateQuery token context expiry force d) = JStr token \<and>
     contextId (updateQuery token context expiry force d) = JStr context \<and>
     authExpiry (updateQuery token context expiry force d) =
       (case expiry of None \<Rightarrow> JUndefined | Some x \<Rightarrow> JNum x) \<and>
     (transport d \<noteq> None \<longrightarrow>
        state (snd (start cb d)) = STATE_STARTED \<and> startCallback (snd (start cb d)) = Some (Raw cb))"
proof -
  have n: "next_index c = n" using assms(4) by (simp add: next_index_def)
  have 1: "onTransportFail E err c =
       (Normal,
        c\<lparr>transportIndex := Some k,
          transport := Some tr,
          effects := effects c
            @ [Log Info ''Transport failed'' (D_error err # getLogDetails c)]
            @ probes ts n (Suc k)
            @ [Constructed tr,
               Log Debug ''Next supported Transport found'' [D_name tr],
               TransportCall tr (SetReceivedCallback (receiveCallback c)),
               TransportCall tr (SetStateChangedCallback (stateChangedCallback c)),
               TransportCall tr (SetUnauthorizedCallback (unauthorizedCallback c)),
               TransportCall tr (SetConnectionSlowCallback (connectionSlowCallback c)),
               TransportCall tr (UpdateQuery (authToken c) (contextId c) (authExpiry c) None),
               TransportCall tr
                 (Start (spread (entry_options (ts ! k)) (options c)) (startCallback c))]\<rparr>)"
    using assms by (subst onTransportFail_found[where k = k]) (simp_all add: n supported_at_def)
  have 2: "spread defaults configured key =
       (case configured key of Some v \<Rightarrow> Some v | None \<Rightarrow> defaults key)"
    by (simp add: spread_def map_add_def split: option.splits)
  have 3: "authToken (updateQuery token context expiry force d) = JStr token"
    "contextId (updateQuery token context expiry force d) = JStr context"
    "authExpiry (updateQuery token context expiry force d) =
       (case expiry of None \<Rightarrow> JUndefined | Some x \<Rightarrow> JNum x)"
    by (simp_all add: updateQuery_def Let_def emit_def split: option.splits)
  have 4: "transport d \<noteq> None \<longrightarrow>
        state (snd (start cb d)) = STATE_STARTED \<and> startCallback (snd (start cb d)) = Some (Raw cb)"
    by (auto simp: start_def Let_def emit_def split: option.splits)
  from 1 2 3 4 show ?thesis by blast
qed

theorem fallback_replays_session_and_restarts_witness:
  "state example_started = STATE_STARTED \<and>
   onTransportFail (env_where (\<lambda>_. True)) None example_started =
     (Normal,
      example_started
        \<lparr>transportIndex := Some 1,
         transport := Some \<lparr>origin = 1, variant = SignalrCoreTransport,
                            url = ''https://example.test/streaming'',
                            failHandler = OnTransportFail\<rparr>,
         effects := effects example_started @
           [Log Info ''Transport failed'' (D_error None # getLogDetails example_started),
            IsSupportedCalled 1 SignalrCoreTransport,
            Constructed \<lparr>origin = 1, variant = SignalrCoreTransport,
                            url = ''https://example.test/streaming'',
                            failHandler = OnTransportFail\<rparr>,
            Log Debug ''Next supported Transport found''
              [D_name \<lparr>origin = 1, variant = SignalrCoreTransport,
                            url = ''https://example.test/streaming'',
                            failHandler = OnTransportFail\<rparr>],
            TransportCall \<lparr>origin = 1, variant = SignalrCoreTransport,
                            url = ''https://example.test/streaming'',
                            failHandler = OnTransportFail\<rparr> (SetReceivedCallback (Raw NOOP)),
            TransportCall \<lparr>origin = 1, variant = SignalrCoreTransport,
                            url = ''https://example.test/streaming'',
                            failHandler = OnTransportFail\<rparr> (SetStateChangedCallback (Raw NOOP)),
            TransportCall \<lparr>origin = 1, variant = SignalrCoreTransport,
                            url = ''https://example.test/streaming'',
                            failHandler = OnTransportFail\<rparr> (SetUnauthorizedCallback None),
            TransportCall \<lparr>origin = 1, variant = SignalrCoreTransport,
                            url = ''https://example.test/streaming'',
                            failHandler = OnTransportFail\<rparr> (SetConnectionSlowCallback (Raw NOOP)),
            TransportCall \<lparr>origin = 1, variant = SignalrCoreTransport,
                            url = ''https://example.test/streaming'',
                            failHandler = OnTransportFail\<rparr>
              (UpdateQuery (JStr ''T1'') (JStr ''C1'') (JNum 1000) None),
            TransportCall \<lparr>origin = 1, variant = SignalrCoreTransport,
                            url = ''https://example.test/streaming'',
                            failHandler = OnTransportFail\<rparr>
              (Start (spread [''transportType'' \<mapsto> JStr ''signalrCoreWebSockets'',
                              ''skipNegotiation'' \<mapsto> JBool True] example_options)
                 (Some (Raw (Consumer 1))))]\<rparr>) \<and>
   spread [''transportType'' \<mapsto> JStr ''signalrCoreWebSockets'',
           ''skipNegotiation'' \<mapsto> JBool True] example_options ''skipNegotiation'' =
     Some (JBool False) \<and>
   spread [''transportType'' \<mapsto> JStr ''signalrCoreWebSockets'',
           ''skipNegotiation'' \<mapsto> JBool True] example_options ''transportType'' =
     Some (JStr ''signalrCoreWebSockets'')"
  using fallback_replays_session_and_restarts
    [where c = example_started and E = "env_where (\<lambda>_. True)" and k = 1 and n = 1
       and ts = "transports example_started" and u = "''https://example.test/streaming''"
       and tr = "\<lparr>origin = 1, variant = SignalrCoreTransport,
                            url = ''https://example.test/streaming'',
                            failHandler = OnTransportFail\<rparr>"
       and err = None
       and defaults = "[''transportType'' \<mapsto> JStr ''signalrCoreWebSockets'',
           ''skipNegotiation'' \<mapsto> JBool True]" and configured = example_options
       and key = "''skipNegotiation''" and d = example_connection]
    fallback_replays_session_and_restarts
    [where c = example_started and E = "env_where (\<lambda>_. True)" and k = 1 and n = 1
       and ts = "transports example_started" and u = "''https://example.test/streaming''"
       and tr = "\<lparr>origin = 1, variant = SignalrCoreTransport,
                            url = ''https://example.test/streaming'',
                            failHandler = OnTransportFail\<rparr>"
       and err = None
       and defaults = "[''transportType'' \<mapsto> JStr ''signalrCoreWebSockets'',
           ''skipNegotiation'' \<mapsto> JBool True]" and configured = example_options
       and key = "''transportType''" and d = example_connection]
  by (simp add: example_started_eq example_connection_eq env_where_def instance_at_def
      probes_def example_options_def)

text \<open>
  C8. When the state is stopped and the handler finds a next viable candidate \<open>k\<close>, it
  still constructs the instance of candidate \<open>k\<close>, makes it the transport and calls the
  four registrations on it; these are all its calls on the replacement, so neither
  \<open>updateQuery\<close> nor \<open>start\<close> is called. \<open>stop\<close> on a Connection with a transport sets
  the state to stopped.
\<close>

theorem fallback_after_stop_does_not_restart:
  assumes "state c = STATE_STOPPED"
    and "transports c = ts" and "baseUrl c = u"
    and "(case transportIndex c of None \<Rightarrow> 0 | Some m \<Rightarrow> m + 1) = n"
    and "n \<le> k" and "k < length ts"
    and "\<forall>i. n \<le> i \<and> i < k \<longrightarrow> \<not> isSupported E (entry_instance (ts ! i))"
    and "isSupported E (entry_instance (ts ! k))"
    and "tr = instance_at ts u k"
  shows
    "onTransportFail E err c =
       (Normal,
        c\<lparr>transportIndex := Some k,
          transport := Some tr,
          effects := effects c
            @ [Log Info ''Transport failed'' (D_error err # getLogDetails c)]
            @ probes ts n (Suc k)
            @ [Constructed tr,
               Log Debug ''Next supported Transport found'' [D_name tr],
               TransportCall tr (SetReceivedCallback (receiveCallback c)),
               TransportCall tr (SetStateChangedCallback (stateChangedCallback c)),
               TransportCall tr (SetUnauthorizedCallback (unauthorizedCallback c)),
               TransportCall tr (SetConnectionSlowCallback (connectionSlowCallback c))]\<rparr>) \<and>
     (transport d \<noteq> None \<longrightarrow> state (stop d) = STATE_STOPPED)"
proof -
  have n: "next_index c = n" using assms(4) by (simp add: next_index_def)
  have 1: "onTransportFail E err c =
       (Normal,
        c\<lparr>transportIndex := Some k,
          transport := Some tr,
          effects := effects c
            @ [Log Info ''Transport failed'' (D_error err # getLogDetails c)]
            @ probes ts n (Suc k)
            @ [Constructed tr,
               Log Debug ''Next supported Transport found'' [D_name tr],
               TransportCall tr (SetReceivedCallback (receiveCallback c)),
               TransportCall tr (SetStateChangedCallback (stateChangedCallback c)),
               TransportCall tr (SetUnauthorizedCallback (unauthorizedCallback c)),
               TransportCall tr (SetConnectionSlowCallback (connectionSlowCallback c))]\<rparr>)"
    using assms by (subst onTransportFail_found[where k = k]) (simp_all add: n supported_at_def)
  have 2: "transport d \<noteq> None \<longrightarrow> state (stop d) = STATE_STOPPED"
    by (auto simp: stop_def emit_def split: option.splits)
  from 1 2 show ?thesis by blast
qed

theorem fallback_after_stop_does_not_restart_witness:
  "state example_stopped = STATE_STOPPED \<and>
   onTransportFail (env_where (\<lambda>_. True)) None example_stopped =
     (Normal,
      example_stopped
        \<lparr>transportIndex := Some 1,
         transport := Some \<lparr>origin = 1, variant = SignalrCoreTransport,
                            url = ''https://example.test/streaming'',
                            failHandler = OnTransportFail\<rparr>,
         effects := effects example_stopped @
           [Log Info ''Transport failed'' (D_error None # getLogDetails example_stopped),
            IsSupportedCalled 1 SignalrCoreTransport,
            Constructed \<lparr>origin = 1, variant = SignalrCoreTransport,
                            url = ''https://example.test/streaming'',
                            failHandler = OnTransportFail\<rparr>,
            Log Debug ''Next supported Transport found''
              [D_name \<lparr>origin = 1, variant = SignalrCoreTransport,
                            url = ''https://example.test/streaming'',
                            failHandler = OnTransportFail\<rparr>],
            TransportCall \<lparr>origin = 1, variant = SignalrCoreTransport,
                            url = ''https://example.test/streaming'',
                            failHandler = OnTransportFail\<rparr> (SetReceivedCallback (Raw NOOP)),
            TransportCall \<lparr>origin = 1, variant = SignalrCoreTransport,
                            url = ''https://example.test/streaming'',
                            failHandler = OnTransportFail\<rparr> (SetStateChangedCallback (Raw NOOP)),
            TransportCall \<lparr>origin = 1, variant = SignalrCoreTransport,
                            url = ''https://example.test/streaming'',
                            failHandler = OnTransportFail\<rparr> (SetUnauthorizedCallback None),
            TransportCall \<lparr>origin = 1, variant = SignalrCoreTransport,
                            url = ''https://example.test/streaming'',
                            failHandler = OnTransportFail\<rparr>
              (SetConnectionSlowCallback (Raw NOOP))]\<rparr>)"
  using fallback_after_stop_does_not_restart
    [where c = example_stopped and E = "env_where (\<lambda>_. True)" and k = 1 and n = 1
       and ts = "transports example_stopped" and u = "''https://example.test/streaming''"
       and tr = "\<lparr>origin = 1, variant = SignalrCoreTransport,
                            url = ''https://example.test/streaming'',
                            failHandler = OnTransportFail\<rparr>"
       and err = None and d = example_started]
  by (simp add: example_stopped_def stop_def emit_def example_started_eq example_connection_eq
      env_where_def instance_at_def probes_def)

lemma onTransportFail_cases:
  obtains (exhausted) "\<not> viable_from E (transports c) (next_index c)"
    "onTransportFail E err c =
      (Normal,
       c\<lparr>transportIndex := Some (max (next_index c) (length (transports c))),
         transport := None,
         effects := effects c
           @ [Log Info ''Transport failed'' (D_error err # getLogDetails c)]
           @ probes (transports c) (next_index c) (length (transports c))
           @ [Log Warn ''Next supported Transport not found''
                (D_error err #
                 getLogDetails
                   (c\<lparr>transportIndex := Some (max (next_index c) (length (transports c)))\<rparr>)),
              FailCallbackCalled (failCallback c)]\<rparr>)"
  | (found) k where "viable_from E (transports c) (next_index c)"
    "next_index c \<le> k" "k < length (transports c)"
    "onTransportFail E err c =
      (Normal,
       c\<lparr>transportIndex := Some k,
         transport := Some (instance_at (transports c) (baseUrl c) k),
         effects := effects c
           @ [Log Info ''Transport failed'' (D_error err # getLogDetails c)]
           @ probes (transports c) (next_index c) (Suc k)
           @ [Constructed (instance_at (transports c) (baseUrl c) k),
              Log Debug ''Next supported Transport found''
                [D_name (instance_at (transports c) (baseUrl c) k)],
              TransportCall (instance_at (transports c) (baseUrl c) k)
                (SetReceivedCallback (receiveCallback c)),
              TransportCall (instance_at (transports c) (baseUrl c) k)
                (SetStateChangedCallback (stateChangedCallback c)),
              TransportCall (instance_at (transports c) (baseUrl c) k)
                (SetUnauthorizedCallback (unauthorizedCallback c)),
              TransportCall (instance_at (transports c) (baseUrl c) k)
                (SetConnectionSlowCallback (connectionSlowCallback c))]
           @ (if state c = STATE_STARTED then
                [TransportCall (instance_at (transports c) (baseUrl c) k)
                   (UpdateQuery (authToken c) (contextId c) (authExpiry c) None),
                 TransportCall (instance_at (transports c) (baseUrl c) k)
                   (Start (spread (entry_options (transports c ! k)) (options c))
                      (startCallback c))]
              else [])\<rparr>)"
proof (cases "viable_from E (transports c) (next_index c)")
  case False
  from exhausted[OF False onTransportFail_exhausted[OF False]] show ?thesis .
next
  case True
  then obtain k where k: "next_index c \<le> k" "k < length (transports c)"
    "supported_at E (transports c) k"
    "\<forall>i. next_index c \<le> i \<and> i < k \<longrightarrow> \<not> supported_at E (transports c) i"
    by (rule viable_from_least)
  from found[OF True k(1,2) onTransportFail_found[OF k(1,2,4,3)]] show ?thesis .
qed

lemma onTransportFail_state [simp]: "state (snd (onTransportFail E err c)) = state c"
  by (cases rule: onTransportFail_cases[of E c err]) simp_all

subsection \<open>The lifecycle state\<close>

text \<open>
  C4, as the code has it. From the state disposed, \<open>start\<close> on a Connection with a
  transport leads to started and \<open>stop\<close> on a Connection with a transport leads to
  stopped; every other operation, a failure report of a transport and a call of a callback
  leave the state disposed, and so do \<open>start\<close> and \<open>stop\<close> without a transport.
\<close>

theorem disposed_left_only_by_start_and_stop:
  assumes "state c = STATE_DISPOSED"
  shows "state (snd (step E a c)) =
    (case a of
       A_start f \<Rightarrow> if transport c = None then STATE_DISPOSED else STATE_STARTED
     | A_stop \<Rightarrow> if transport c = None then STATE_DISPOSED else STATE_STOPPED
     | _ \<Rightarrow> STATE_DISPOSED)"
proof (cases a)
  case (A_start f)
  then show ?thesis using assms
    by (auto simp: start_def Let_def emit_def split: option.splits)
next
  case A_stop
  then show ?thesis using assms by (auto simp: stop_def emit_def split: option.splits)
next
  case A_dispose
  then show ?thesis by (simp add: dispose_def)
next
  case (A_updateQuery t x e f)
  then show ?thesis using assms
    by (auto simp: updateQuery_def Let_def emit_def split: option.splits)
next
  case A_getQuery
  then show ?thesis using assms by (auto simp: getQuery_def emit_def split: option.splits)
next
  case (A_setUnauthorizedCallback f)
  then show ?thesis using assms
    by (auto simp: setUnauthorizedCallback_def Let_def emit_def split: option.splits)
next
  case (A_setStateChangedCallback f)
  then show ?thesis using assms
    by (auto simp: setStateChangedCallback_def Let_def emit_def split: option.splits)
next
  case (A_setReceivedCallback f)
  then show ?thesis using assms
    by (auto simp: setReceivedCallback_def Let_def emit_def split: option.splits)
next
  case (A_setConnectionSlowCallback f)
  then show ?thesis using assms
    by (auto simp: setConnectionSlowCallback_def Let_def emit_def split: option.splits)
next
  case A_getTransport
  then show ?thesis using assms by (auto simp: getTransport_def emit_def split: option.splits)
next
  case A_onOrphanFound
  then show ?thesis using assms by (auto simp: onOrphanFound_def emit_def split: option.splits)
next
  case A_onSubscribeNetworkError
  then show ?thesis using assms
    by (auto simp: onSubscribeNetworkError_def emit_def split: option.splits)
next
  case (A_transportFail err)
  then show ?thesis using assms by simp
next
  case (A_transportInvokes cb args)
  then show ?thesis using assms
    by (cases cb) (auto simp: ensureValidState_def call_fn_def emit_def split: option.splits)
qed

theorem disposed_left_only_by_start_and_stop_witness:
  "state (dispose example_connection) = STATE_DISPOSED \<and>
   state (snd (step (env_where (\<lambda>_. True)) A_stop (dispose example_connection))) = STATE_STOPPED \<and>
   state (snd (step (env_where (\<lambda>_. True)) (A_transportFail None) (dispose example_connection))) =
     STATE_DISPOSED"
  using disposed_left_only_by_start_and_stop
    [where c = "dispose example_connection" and E = "env_where (\<lambda>_. True)" and a = A_stop]
    disposed_left_only_by_start_and_stop
    [where c = "dispose example_connection" and E = "env_where (\<lambda>_. True)"
       and a = "A_transportFail None"]
  by (simp add: dispose_def example_connection_eq)

theorem disposed_is_not_terminal_counterexample:
  "state (snd (step (env_where (\<lambda>_. True)) A_dispose example_connection)) = STATE_DISPOSED \<and>
   state (snd (step (env_where (\<lambda>_. True)) (A_start (Consumer 1))
                 (snd (step (env_where (\<lambda>_. True)) A_dispose example_connection)))) =
     STATE_STARTED"
  by (simp add: dispose_def start_def example_connection_eq candidate_options_def emit_def)

subsection \<open>The disposal guard\<close>

text \<open>
  C7, as the code has it. On a Connection with a transport, each of the four setters
  (unauthorized, state-changed, received, connection-slow) stores the guard wrapper of the
  function it is given and hands that wrapper to the transport. While the state is not
  disposed, a call of a wrapper calls the wrapped function with the same arguments.
  \<open>start\<close> stores the function it is given as it is, without a wrapper, and hands it to
  the transport so.
\<close>

theorem setters_wrap_and_start_does_not:
  assumes "transport c = Some tr"
  shows
    "setUnauthorizedCallback f c =
       c\<lparr>unauthorizedCallback := Some (Guarded f ''unauthorizedCallback''),
         effects := effects c @
           [TransportCall tr (SetUnauthorizedCallback (Some (Guarded f ''unauthorizedCallback'')))]\<rparr> \<and>
     setStateChangedCallback f c =
       c\<lparr>stateChangedCallback := Guarded f ''stateChangedCallback'',
         effects := effects c @
           [TransportCall tr (SetStateChangedCallback (Guarded f ''stateChangedCallback''))]\<rparr> \<and>
     setReceivedCallback f c =
       c\<lparr>receiveCallback := Guarded f ''receivedCallback'',
         effects := effects c @
           [TransportCall tr (SetReceivedCallback (Guarded f ''receivedCallback''))]\<rparr> \<and>
     setConnectionSlowCallback f c =
       c\<lparr>connectionSlowCallback := Guarded f ''connectionSlowCallback'',
         effects := effects c @
           [TransportCall tr (SetConnectionSlowCallback (Guarded f ''connectionSlowCallback''))]\<rparr> \<and>
     (state d \<noteq> STATE_DISPOSED \<longrightarrow>
        invoke (Guarded f kind) args d = (Normal, d\<lparr>effects := effects d @ [Called f args]\<rparr>)) \<and>
     (candidate_options c = Some defaults \<longrightarrow>
        start f c =
          (Normal,
           c\<lparr>state := STATE_STARTED, startCallback := Some (Raw f),
             effects := effects c @
               [TransportCall tr (Start (spread defaults (options c)) (Some (Raw f)))]\<rparr>))"
proof -
  have cand: "candidate_options (c\<lparr>state := STATE_STARTED, startCallback := Some (Raw f)\<rparr>) =
      candidate_options c"
    by (simp add: candidate_options_def split: option.splits)
  have "candidate_options c = Some defaults \<longrightarrow>
        start f c =
          (Normal,
           c\<lparr>state := STATE_STARTED, startCallback := Some (Raw f),
             effects := effects c @
               [TransportCall tr (Start (spread defaults (options c)) (Some (Raw f)))]\<rparr>)"
    using assms by (simp add: start_def Let_def cand emit_def)
  then show ?thesis
    using assms
    by (simp add: setUnauthorizedCallback_def setStateChangedCallback_def
        setReceivedCallback_def setConnectionSlowCallback_def ensureValidState_def call_fn_def
        emit_def Let_def)
qed

theorem setters_wrap_and_start_does_not_witness:
  "transport example_connection =
     Some \<lparr>origin = 0, variant = WebsocketTransport, url = ''https://example.test/streaming'',
           failHandler = OnTransportFail\<rparr> \<and>
   state example_connection \<noteq> STATE_DISPOSED \<and>
   candidate_options example_connection = Some Map.empty \<and>
   setReceivedCallback (Consumer 2) example_connection =
     example_connection
       \<lparr>receiveCallback := Guarded (Consumer 2) ''receivedCallback'',
        effects := effects example_connection @
          [TransportCall
             \<lparr>origin = 0, variant = WebsocketTransport,
              url = ''https://example.test/streaming'', failHandler = OnTransportFail\<rparr>
             (SetReceivedCallback (Guarded (Consumer 2) ''receivedCallback''))]\<rparr> \<and>
   invoke (Guarded (Consumer 2) ''receivedCallback'') [JStr ''message''] example_connection =
     (Normal,
      example_connection
        \<lparr>effects := effects example_connection @ [Called (Consumer 2) [JStr ''message'']]\<rparr>) \<and>
   start (Consumer 2) example_connection =
     (Normal,
      example_connection
        \<lparr>state := STATE_STARTED, startCallback := Some (Raw (Consumer 2)),
         effects := effects example_connection @
           [TransportCall
              \<lparr>origin = 0, variant = WebsocketTransport,
               url = ''https://example.test/streaming'', failHandler = OnTransportFail\<rparr>
              (Start (spread Map.empty (options example_connection))
                 (Some (Raw (Consumer 2))))]\<rparr>)"
proof -
  have h1: "transport example_connection =
     Some \<lparr>origin = 0, variant = WebsocketTransport, url = ''https://example.test/streaming'',
           failHandler = OnTransportFail\<rparr>"
    by (simp add: example_connection_eq)
  have h2: "state example_connection \<noteq> STATE_DISPOSED"
    by (simp add: example_connection_eq)
  have h3: "candidate_options example_connection = Some Map.empty"
    by (simp add: example_connection_eq candidate_options_def)
  from setters_wrap_and_start_does_not
    [OF h1, where f = "Consumer 2" and kind = "''receivedCallback''"
       and args = "[JStr ''message'']" and d = example_connection and defaults = Map.empty]
    h1 h2 h3
  show ?thesis by blast
qed

theorem start_callback_is_not_wrapped_counterexample:
  "startCallback (snd (start (Consumer 1) example_connection)) = Some (Raw (Consumer 1)) \<and>
   last (effects (snd (start (Consumer 1) example_connection))) =
     TransportCall
       \<lparr>origin = 0, variant = WebsocketTransport, url = ''https://example.test/streaming'',
        failHandler = OnTransportFail\<rparr>
       (Start (spread Map.empty example_options) (Some (Raw (Consumer 1))))"
  by (simp add: start_def example_connection_eq candidate_options_def emit_def)

lemma Connection_exhausted:
  assumes "getSupportedTransports T (options_transport opts) = ts"
    and "\<not> viable_from E ts 0"
  shows "Connection E T opts u f =
     \<lparr>baseUrl = u,
      failCallback = (case f of None \<Rightarrow> NOOP | Some g \<Rightarrow> g),
      startCallback = Some (Raw NOOP),
      stateChangedCallback = Raw NOOP,
      receiveCallback = Raw NOOP,
      connectionSlowCallback = Raw NOOP,
      authToken = JNull, authExpiry = JNull, contextId = JNull,
      options = opts, transports = ts, state = STATE_CREATED,
      transportIndex = Some (length ts),
      transport = None,
      unauthorizedCallback = None,
      effects = probes ts 0 (length ts) @
        [Log Error ''Unable to setup initial transport. Supported Transport not found.''
           [D_url u, D_index (Some (length ts)), D_contextId JNull,
            D_enabledTransports (opts ''transport'')],
         FailCallbackCalled (case f of None \<Rightarrow> NOOP | Some g \<Rightarrow> g)]\<rparr>"
  unfolding Connection_def Let_def
  apply (subst createTransport_exhausted)
  using assms by (simp_all add: next_index_def emit_def getLogDetails_def)

lemma Connection_cases:
  obtains (exhausted) "\<not> viable_from E (getSupportedTransports T (options_transport opts)) 0"
  | (found) k where "k < length (getSupportedTransports T (options_transport opts))"
      "supported_at E (getSupportedTransports T (options_transport opts)) k"
      "\<forall>i. i < k \<longrightarrow> \<not> supported_at E (getSupportedTransports T (options_transport opts)) i"
proof (cases "viable_from E (getSupportedTransports T (options_transport opts)) 0")
  case False
  then show ?thesis by (rule exhausted)
next
  case True
  then obtain k where "0 \<le> k" "k < length (getSupportedTransports T (options_transport opts))"
      "supported_at E (getSupportedTransports T (options_transport opts)) k"
      "\<forall>i. 0 \<le> i \<and> i < k \<longrightarrow> \<not> supported_at E (getSupportedTransports T (options_transport opts)) i"
    by (rule viable_from_least)
  then show ?thesis using found by simp
qed

lemma registered_probes [simp]:
  "list_all (\<lambda>e. case registered e of None \<Rightarrow> True | Some cb \<Rightarrow> guard_or_noop cb) (probes ts m n)"
  by (simp add: probes_def list_all_iff)

lemma callbacks_guarded_Connection: "callbacks_guarded (Connection E T opts u f)"
proof (cases rule: Connection_cases[of E T opts])
  case exhausted
  show ?thesis
    by (subst Connection_exhausted[OF refl exhausted]) (simp add: callbacks_guarded_def)
next
  case (found k)
  show ?thesis
    by (subst Connection_found[OF refl found(1) found(3) found(2)])
       (simp add: callbacks_guarded_def)
qed

lemma callbacks_guarded_step:
  assumes "callbacks_guarded c"
  shows "callbacks_guarded (snd (step E a c))"
proof (cases a)
  case (A_start f)
  then show ?thesis using assms
    by (auto simp: callbacks_guarded_def start_def Let_def emit_def split: option.splits)
next
  case A_stop
  then show ?thesis using assms
    by (auto simp: callbacks_guarded_def stop_def emit_def split: option.splits)
next
  case A_dispose
  then show ?thesis using assms by (simp add: callbacks_guarded_def dispose_def)
next
  case (A_updateQuery t x e f)
  then show ?thesis using assms
    by (auto simp: callbacks_guarded_def updateQuery_def Let_def emit_def split: option.splits)
next
  case A_getQuery
  then show ?thesis using assms
    by (auto simp: callbacks_guarded_def getQuery_def emit_def split: option.splits)
next
  case (A_setUnauthorizedCallback f)
  then show ?thesis using assms
    by (auto simp: callbacks_guarded_def setUnauthorizedCallback_def Let_def emit_def
        split: option.splits)
next
  case (A_setStateChangedCallback f)
  then show ?thesis using assms
    by (auto simp: callbacks_guarded_def setStateChangedCallback_def Let_def emit_def
        split: option.splits)
next
  case (A_setReceivedCallback f)
  then show ?thesis using assms
    by (auto simp: callbacks_guarded_def setReceivedCallback_def Let_def emit_def
        split: option.splits)
next
  case (A_setConnectionSlowCallback f)
  then show ?thesis using assms
    by (auto simp: callbacks_guarded_def setConnectionSlowCallback_def Let_def emit_def
        split: option.splits)
next
  case A_getTransport
  then show ?thesis using assms
    by (auto simp: callbacks_guarded_def getTransport_def emit_def split: option.splits)
next
  case A_onOrphanFound
  then show ?thesis using assms
    by (auto simp: callbacks_guarded_def onOrphanFound_def emit_def split: option.splits)
next
  case A_onSubscribeNetworkError
  then show ?thesis using assms
    by (auto simp: callbacks_guarded_def onSubscribeNetworkError_def emit_def
        split: option.splits)
next
  case (A_transportFail err)
  show ?thesis
  proof (cases rule: onTransportFail_cases[of E c err])
    case exhausted
    then show ?thesis using assms A_transportFail by (simp add: callbacks_guarded_def)
  next
    case (found k)
    then show ?thesis using assms A_transportFail
      by (simp add: callbacks_guarded_def split: option.splits)
  qed
next
  case (A_transportInvokes cb args)
  then show ?thesis using assms
    by (cases cb)
       (auto simp: callbacks_guarded_def ensureValidState_def call_fn_def emit_def
          split: option.splits)
qed

lemma callbacks_guarded_run:
  "callbacks_guarded c \<Longrightarrow> callbacks_guarded (run E as c)"
  by (induction as arbitrary: c) (simp_all add: callbacks_guarded_step)

text \<open>
  C2, as the code has it. Take any history of a Connection after which the state is
  disposed and the Connection holds a transport, and any callback that the Connection has
  registered on any transport for the received, state-changed, unauthorized or
  connection-slow path. The callback is a guard wrapper, and calling it logs a warning,
  calls no function and does not throw; or it is the constant \<open>NOOP\<close> that the slots
  start with, and calling it calls \<open>NOOP\<close>. No function of the consumer is called.
\<close>

theorem disposed_guard_drops_registered_callbacks:
  assumes "c = run E as (Connection E T opts u f)"
    and "state c = STATE_DISPOSED"
    and "transport c = Some tr"
    and "e \<in> set (effects c)"
    and "registered e = Some cb"
  shows
    "(\<exists>g kind. cb = Guarded g kind \<and>
        invoke cb args c =
          (Normal,
           c\<lparr>effects := effects c @
               [Log Warn ''callback called after transport was disposed''
                  [D_callback kind, D_transport tr, D_contextId (contextId c)]]\<rparr>)) \<or>
     (cb = Raw NOOP \<and> invoke cb args c = (Normal, c\<lparr>effects := effects c @ [Called NOOP args]\<rparr>))"
proof -
  have "callbacks_guarded c"
    unfolding assms(1) by (rule callbacks_guarded_run) (rule callbacks_guarded_Connection)
  with assms(4,5) have "guard_or_noop cb"
    by (auto simp: callbacks_guarded_def list_all_iff split: option.splits)
  then show ?thesis
  proof (cases cb)
    case (Raw g)
    assume "guard_or_noop cb"
    with Raw have "g = NOOP" by simp
    with Raw show ?thesis by (simp add: call_fn_def emit_def)
  next
    case (Guarded g kind)
    have "invoke (Guarded g kind) args c =
          (Normal,
           c\<lparr>effects := effects c @
               [Log Warn ''callback called after transport was disposed''
                  [D_callback kind, D_transport tr, D_contextId (contextId c)]]\<rparr>)"
      by (simp add: ensureValidState_def emit_def assms(2) assms(3))
    with Guarded show ?thesis by blast
  qed
qed

theorem disposed_guard_drops_registered_callbacks_witness:
  "state (run (env_where (\<lambda>_. True)) [A_setReceivedCallback (Consumer 2), A_dispose]
            example_connection) = STATE_DISPOSED \<and>
   invoke (Guarded (Consumer 2) ''receivedCallback'') [JStr ''message'']
     (run (env_where (\<lambda>_. True)) [A_setReceivedCallback (Consumer 2), A_dispose]
        example_connection) =
   (Normal,
    (run (env_where (\<lambda>_. True)) [A_setReceivedCallback (Consumer 2), A_dispose]
        example_connection)
      \<lparr>effects :=
         effects (run (env_where (\<lambda>_. True)) [A_setReceivedCallback (Consumer 2), A_dispose]
                    example_connection) @
         [Log Warn ''callback called after transport was disposed''
            [D_callback ''receivedCallback'',
             D_transport \<lparr>origin = 0, variant = WebsocketTransport,
                          url = ''https://example.test/streaming'',
                          failHandler = OnTransportFail\<rparr>,
             D_contextId JNull]]\<rparr>)"
proof -
  let ?c = "run (env_where (\<lambda>_. True)) [A_setReceivedCallback (Consumer 2), A_dispose]
              example_connection"
  let ?tr = "\<lparr>origin = 0, variant = WebsocketTransport,
              url = ''https://example.test/streaming'', failHandler = OnTransportFail\<rparr>"
  let ?e = "TransportCall ?tr (SetReceivedCallback (Guarded (Consumer 2) ''receivedCallback''))"
  have h1: "?c = run (env_where (\<lambda>_. True)) [A_setReceivedCallback (Consumer 2), A_dispose]
      (Connection (env_where (\<lambda>_. True)) example_types example_options
         ''https://example.test/streaming'' None)"
    by (simp add: example_connection_def)
  have h2: "state ?c = STATE_DISPOSED"
    by (simp add: dispose_def)
  have h3: "transport ?c = Some ?tr"
    by (simp add: dispose_def setReceivedCallback_def example_connection_eq emit_def)
  have h4: "?e \<in> set (effects ?c)"
    by (simp add: dispose_def setReceivedCallback_def example_connection_eq emit_def)
  have h5: "registered ?e = Some (Guarded (Consumer 2) ''receivedCallback'')"
    by simp
  have h6: "contextId ?c = JNull"
    by (simp add: dispose_def setReceivedCallback_def example_connection_eq emit_def)
  from disposed_guard_drops_registered_callbacks[OF h1 h2 h3 h4 h5, of "[JStr ''message'']"]
  show ?thesis using h2 unfolding h6 by simp
qed

theorem start_callback_reaches_consumer_after_dispose_counterexample:
  "state (dispose example_started) = STATE_DISPOSED \<and>
   last (effects (dispose example_started)) =
     TransportCall
       \<lparr>origin = 0, variant = WebsocketTransport, url = ''https://example.test/streaming'',
        failHandler = OnTransportFail\<rparr>
       (Start (spread Map.empty example_options) (Some (Raw (Consumer 1)))) \<and>
   invoke (Raw (Consumer 1)) [JStr ''started''] (dispose example_started) =
     (Normal,
      (dispose example_started)
        \<lparr>effects := effects (dispose example_started) @
           [Called (Consumer 1) [JStr ''started'']]\<rparr>)"
  by (simp add: dispose_def example_started_eq call_fn_def emit_def)

subsection \<open>The slots across a history\<close>

lemmas operation_defs =
  start_def stop_def dispose_def updateQuery_def getQuery_def setUnauthorizedCallback_def
  setStateChangedCallback_def setReceivedCallback_def setConnectionSlowCallback_def
  getTransport_def onOrphanFound_def onSubscribeNetworkError_def ensureValidState_def
  call_fn_def emit_def Let_def

lemma onTransportFail_slots [simp]:
  "receiveCallback (snd (onTransportFail E err c)) = receiveCallback c"
  "stateChangedCallback (snd (onTransportFail E err c)) = stateChangedCallback c"
  "connectionSlowCallback (snd (onTransportFail E err c)) = connectionSlowCallback c"
  "unauthorizedCallback (snd (onTransportFail E err c)) = unauthorizedCallback c"
  by (cases rule: onTransportFail_cases[of E c err]; simp)+

lemma invoke_slots [simp]:
  "receiveCallback (snd (invoke cb args c)) = receiveCallback c"
  "stateChangedCallback (snd (invoke cb args c)) = stateChangedCallback c"
  "connectionSlowCallback (snd (invoke cb args c)) = connectionSlowCallback c"
  "unauthorizedCallback (snd (invoke cb args c)) = unauthorizedCallback c"
  by (cases cb; simp add: ensureValidState_def call_fn_def emit_def split: option.splits)+

lemma step_receiveCallback:
  "\<not> calls_setReceivedCallback a \<Longrightarrow> receiveCallback (snd (step E a c)) = receiveCallback c"
  by (cases a) (auto simp: calls_setReceivedCallback_def operation_defs split: option.splits)

lemma step_stateChangedCallback:
  "\<not> calls_setStateChangedCallback a \<Longrightarrow>
   stateChangedCallback (snd (step E a c)) = stateChangedCallback c"
  by (cases a) (auto simp: calls_setStateChangedCallback_def operation_defs split: option.splits)

lemma step_connectionSlowCallback:
  "\<not> calls_setConnectionSlowCallback a \<Longrightarrow>
   connectionSlowCallback (snd (step E a c)) = connectionSlowCallback c"
  by (cases a)
     (auto simp: calls_setConnectionSlowCallback_def operation_defs split: option.splits)

lemma step_unauthorizedCallback:
  "\<not> calls_setUnauthorizedCallback a \<Longrightarrow>
   unauthorizedCallback (snd (step E a c)) = unauthorizedCallback c"
  by (cases a) (auto simp: calls_setUnauthorizedCallback_def operation_defs split: option.splits)

lemma run_slots_unset:
  "\<not> list_ex calls_setReceivedCallback as \<Longrightarrow>
     receiveCallback (run E as c) = receiveCallback c"
  "\<not> list_ex calls_setStateChangedCallback as \<Longrightarrow>
     stateChangedCallback (run E as c) = stateChangedCallback c"
  "\<not> list_ex calls_setConnectionSlowCallback as \<Longrightarrow>
     connectionSlowCallback (run E as c) = connectionSlowCallback c"
  "\<not> list_ex calls_setUnauthorizedCallback as \<Longrightarrow>
     unauthorizedCallback (run E as c) = unauthorizedCallback c"
  by (induction as arbitrary: c;
      simp add: step_receiveCallback step_stateChangedCallback step_connectionSlowCallback
        step_unauthorizedCallback)+

lemma Connection_slots:
  "receiveCallback (Connection E T opts u f) = Raw NOOP"
  "stateChangedCallback (Connection E T opts u f) = Raw NOOP"
  "connectionSlowCallback (Connection E T opts u f) = Raw NOOP"
  "unauthorizedCallback (Connection E T opts u f) = None"
proof -
  show "receiveCallback (Connection E T opts u f) = Raw NOOP"
  proof (cases rule: Connection_cases[of E T opts])
    case exhausted
    show ?thesis by (subst Connection_exhausted[OF refl exhausted]) simp
  next
    case (found k)
    show ?thesis by (subst Connection_found[OF refl found(1) found(3) found(2)]) simp
  qed
  show "stateChangedCallback (Connection E T opts u f) = Raw NOOP"
  proof (cases rule: Connection_cases[of E T opts])
    case exhausted
    show ?thesis by (subst Connection_exhausted[OF refl exhausted]) simp
  next
    case (found k)
    show ?thesis by (subst Connection_found[OF refl found(1) found(3) found(2)]) simp
  qed
  show "connectionSlowCallback (Connection E T opts u f) = Raw NOOP"
  proof (cases rule: Connection_cases[of E T opts])
    case exhausted
    show ?thesis by (subst Connection_exhausted[OF refl exhausted]) simp
  next
    case (found k)
    show ?thesis by (subst Connection_found[OF refl found(1) found(3) found(2)]) simp
  qed
  show "unauthorizedCallback (Connection E T opts u f) = None"
  proof (cases rule: Connection_cases[of E T opts])
    case exhausted
    show ?thesis by (subst Connection_exhausted[OF refl exhausted]) simp
  next
    case (found k)
    show ?thesis by (subst Connection_found[OF refl found(1) found(3) found(2)]) simp
  qed
qed

text \<open>
  C10. Take any history of a Connection and a failure report that finds a next viable
  candidate \<open>k\<close>. The replacement is registered with the values of the four slots. The
  received, state-changed and connection-slow slots always hold a function, a guard
  wrapper or \<open>NOOP\<close>, and hold \<open>NOOP\<close> when their setter was never called. When
  \<open>setUnauthorizedCallback\<close> was never called, the unauthorized slot holds \<open>undefined\<close> and
  the replacement's \<open>setUnauthorizedCallback\<close> is called with \<open>undefined\<close>.
\<close>

theorem fallback_registers_noop_defaults_but_undefined_unauthorized:
  assumes "c = run E as (Connection E T opts u f)"
    and "(case transportIndex c of None \<Rightarrow> 0 | Some m \<Rightarrow> m + 1) = n"
    and "n \<le> k" and "k < length (transports c)"
    and "\<forall>i. n \<le> i \<and> i < k \<longrightarrow> \<not> isSupported E (entry_instance (transports c ! i))"
    and "isSupported E (entry_instance (transports c ! k))"
    and "tr = instance_at (transports c) (baseUrl c) k"
    and "c' = snd (onTransportFail E err c)"
  shows
    "transport c' = Some tr \<and>
     TransportCall tr (SetReceivedCallback (receiveCallback c)) \<in> set (effects c') \<and>
     TransportCall tr (SetStateChangedCallback (stateChangedCallback c)) \<in> set (effects c') \<and>
     TransportCall tr (SetConnectionSlowCallback (connectionSlowCallback c)) \<in> set (effects c') \<and>
     TransportCall tr (SetUnauthorizedCallback (unauthorizedCallback c)) \<in> set (effects c') \<and>
     guard_or_noop (receiveCallback c) \<and>
     guard_or_noop (stateChangedCallback c) \<and>
     guard_or_noop (connectionSlowCallback c) \<and>
     (\<not> list_ex calls_setReceivedCallback as \<longrightarrow> receiveCallback c = Raw NOOP) \<and>
     (\<not> list_ex calls_setStateChangedCallback as \<longrightarrow> stateChangedCallback c = Raw NOOP) \<and>
     (\<not> list_ex calls_setConnectionSlowCallback as \<longrightarrow> connectionSlowCallback c = Raw NOOP) \<and>
     (\<not> list_ex calls_setUnauthorizedCallback as \<longrightarrow>
        unauthorizedCallback c = None \<and>
        TransportCall tr (SetUnauthorizedCallback None) \<in> set (effects c'))"
proof -
  have n: "next_index c = n" using assms(2) by (simp add: next_index_def)
  have found: "onTransportFail E err c =
    (Normal,
     c\<lparr>transportIndex := Some k,
       transport := Some tr,
       effects := effects c
         @ [Log Info ''Transport failed'' (D_error err # getLogDetails c)]
         @ probes (transports c) n (Suc k)
         @ [Constructed tr,
            Log Debug ''Next supported Transport found'' [D_name tr],
            TransportCall tr (SetReceivedCallback (receiveCallback c)),
            TransportCall tr (SetStateChangedCallback (stateChangedCallback c)),
            TransportCall tr (SetUnauthorizedCallback (unauthorizedCallback c)),
            TransportCall tr (SetConnectionSlowCallback (connectionSlowCallback c))]
         @ (if state c = STATE_STARTED then
              [TransportCall tr (UpdateQuery (authToken c) (contextId c) (authExpiry c) None),
               TransportCall tr
                 (Start (spread (entry_options (transports c ! k)) (options c))
                    (startCallback c))]
            else [])\<rparr>)"
    using assms(3-7) by (subst onTransportFail_found[where k = k]) (simp_all add: n supported_at_def)
  have reg: "transport c' = Some tr"
    "TransportCall tr (SetReceivedCallback (receiveCallback c)) \<in> set (effects c')"
    "TransportCall tr (SetStateChangedCallback (stateChangedCallback c)) \<in> set (effects c')"
    "TransportCall tr (SetConnectionSlowCallback (connectionSlowCallback c)) \<in> set (effects c')"
    "TransportCall tr (SetUnauthorizedCallback (unauthorizedCallback c)) \<in> set (effects c')"
    unfolding assms(8) found by simp_all
  have "callbacks_guarded c"
    unfolding assms(1) by (rule callbacks_guarded_run) (rule callbacks_guarded_Connection)
  then have ok: "guard_or_noop (receiveCallback c)" "guard_or_noop (stateChangedCallback c)"
    "guard_or_noop (connectionSlowCallback c)"
    by (simp_all add: callbacks_guarded_def)
  have unset: "\<not> list_ex calls_setReceivedCallback as \<longrightarrow> receiveCallback c = Raw NOOP"
    "\<not> list_ex calls_setStateChangedCallback as \<longrightarrow> stateChangedCallback c = Raw NOOP"
    "\<not> list_ex calls_setConnectionSlowCallback as \<longrightarrow> connectionSlowCallback c = Raw NOOP"
    "\<not> list_ex calls_setUnauthorizedCallback as \<longrightarrow> unauthorizedCallback c = None"
    unfolding assms(1) by (simp_all add: run_slots_unset Connection_slots)
  from unset(4) reg(5)
  have un: "\<not> list_ex calls_setUnauthorizedCallback as \<longrightarrow>
        unauthorizedCallback c = None \<and>
        TransportCall tr (SetUnauthorizedCallback None) \<in> set (effects c')"
    by auto
  from reg ok unset(1-3) un show ?thesis by blast
qed

theorem fallback_registers_noop_defaults_but_undefined_unauthorized_witness:
  "transport (snd (onTransportFail (env_where (\<lambda>_. True)) None example_started)) =
     Some \<lparr>origin = 1, variant = SignalrCoreTransport, url = ''https://example.test/streaming'',
           failHandler = OnTransportFail\<rparr> \<and>
   receiveCallback example_started = Raw NOOP \<and>
   stateChangedCallback example_started = Raw NOOP \<and>
   connectionSlowCallback example_started = Raw NOOP \<and>
   unauthorizedCallback example_started = None \<and>
   TransportCall
     \<lparr>origin = 1, variant = SignalrCoreTransport, url = ''https://example.test/streaming'',
      failHandler = OnTransportFail\<rparr>
     (SetReceivedCallback (Raw NOOP))
     \<in> set (effects (snd (onTransportFail (env_where (\<lambda>_. True)) None example_started))) \<and>
   TransportCall
     \<lparr>origin = 1, variant = SignalrCoreTransport, url = ''https://example.test/streaming'',
      failHandler = OnTransportFail\<rparr>
     (SetUnauthorizedCallback None)
     \<in> set (effects (snd (onTransportFail (env_where (\<lambda>_. True)) None example_started)))"
proof -
  let ?E = "env_where (\<lambda>_. True)"
  let ?as = "[A_updateQuery ''T1'' ''C1'' (Some 1000) None, A_start (Consumer 1)]"
  let ?tr = "\<lparr>origin = 1, variant = SignalrCoreTransport,
              url = ''https://example.test/streaming'', failHandler = OnTransportFail\<rparr>"
  have h1: "example_started =
      run ?E ?as (Connection ?E example_types example_options
                    ''https://example.test/streaming'' None)"
    by (simp add: example_started_def example_connection_def)
  have h2: "(case transportIndex example_started of None \<Rightarrow> 0 | Some m \<Rightarrow> m + 1) = 1"
    by (simp add: example_started_eq example_connection_eq)
  have h3: "(1::nat) \<le> 1" by simp
  have h4: "1 < length (transports example_started)"
    by (simp add: example_started_eq example_connection_eq)
  have h5: "\<forall>i. 1 \<le> i \<and> i < 1 \<longrightarrow>
      \<not> isSupported ?E (entry_instance (transports example_started ! i))"
    by simp
  have h6: "isSupported ?E (entry_instance (transports example_started ! 1))"
    by (simp add: env_where_def)
  have h7: "?tr = instance_at (transports example_started) (baseUrl example_started) 1"
    by (simp add: example_started_eq example_connection_eq instance_at_def)
  have h8: "\<not> list_ex calls_setReceivedCallback ?as"
    "\<not> list_ex calls_setStateChangedCallback ?as"
    "\<not> list_ex calls_setConnectionSlowCallback ?as"
    "\<not> list_ex calls_setUnauthorizedCallback ?as"
    by (simp_all add: calls_setReceivedCallback_def calls_setStateChangedCallback_def
        calls_setConnectionSlowCallback_def calls_setUnauthorizedCallback_def)
  from fallback_registers_noop_defaults_but_undefined_unauthorized
    [OF h1 h2 h3 h4 h5 h6 h7 refl, of None] h8
  show ?thesis by metis
qed

subsection \<open>Counting over the effects\<close>

lemma fail_called_append [simp]: "fail_called (xs @ ys) = fail_called xs @ fail_called ys"
  by (induction xs rule: fail_called.induct) simp_all

lemma constructed_append [simp]: "constructed (xs @ ys) = constructed xs @ constructed ys"
  by (induction xs rule: constructed.induct) simp_all

lemma fail_called_probes [simp]: "fail_called (probes ts m n) = []"
proof (induction "n - m" arbitrary: m)
  case 0
  then show ?case by simp
next
  case (Suc d)
  then have "m < n" by simp
  with Suc show ?case by (simp add: probes_step)
qed

lemma constructed_probes [simp]: "constructed (probes ts m n) = []"
proof (induction "n - m" arbitrary: m)
  case 0
  then show ?case by simp
next
  case (Suc d)
  then have "m < n" by simp
  with Suc show ?case by (simp add: probes_step)
qed

lemma invoke_frame [simp]:
  "transportIndex (snd (invoke cb args c)) = transportIndex c"
  "transport (snd (invoke cb args c)) = transport c"
  "transports (snd (invoke cb args c)) = transports c"
  "baseUrl (snd (invoke cb args c)) = baseUrl c"
  "fail_called (effects (snd (invoke cb args c))) = fail_called (effects c)"
  "constructed (effects (snd (invoke cb args c))) = constructed (effects c)"
  by (cases cb; simp add: ensureValidState_def call_fn_def emit_def split: option.splits)+

lemma onTransportFail_frame [simp]:
  "transports (snd (onTransportFail E err c)) = transports c"
  "baseUrl (snd (onTransportFail E err c)) = baseUrl c"
  by (cases rule: onTransportFail_cases[of E c err]; simp)+

text \<open>An action that is not a failure report leaves the cursor and the transport alone.\<close>

lemma step_frame:
  assumes "case a of A_transportFail err \<Rightarrow> False | _ \<Rightarrow> True"
  shows "transportIndex (snd (step E a c)) = transportIndex c"
    and "transport (snd (step E a c)) = transport c"
    and "fail_called (effects (snd (step E a c))) = fail_called (effects c)"
    and "constructed (effects (snd (step E a c))) = constructed (effects c)"
  using assms by (cases a; auto simp: operation_defs split: option.splits)+

lemma step_transports [simp]:
  "transports (snd (step E a c)) = transports c"
  "baseUrl (snd (step E a c)) = baseUrl c"
  by (cases a; auto simp: operation_defs split: option.splits)+

lemma run_transports [simp]:
  "transports (run E as c) = transports c"
  "baseUrl (run E as c) = baseUrl c"
  by (induction as arbitrary: c; simp)+

subsection \<open>The total-failure callback\<close>

lemma fail_called_onTransportFail:
  "fail_called (effects (snd (onTransportFail E err c))) =
     fail_called (effects c) @
     (if viable_from E (transports c) (next_index c) then [] else [failCallback c])"
  by (cases rule: onTransportFail_cases[of E c err]) simp_all

lemma transport_onTransportFail:
  "transport (snd (onTransportFail E err c)) \<noteq> None \<longleftrightarrow>
     viable_from E (transports c) (next_index c)"
  by (cases rule: onTransportFail_cases[of E c err]) simp_all

lemma failCallback_onTransportFail [simp]:
  "failCallback (snd (onTransportFail E err c)) = failCallback c"
  by (cases rule: onTransportFail_cases[of E c err]) simp_all

lemma failCallback_step [simp]: "failCallback (snd (step E a c)) = failCallback c"
proof (cases a)
  case (A_transportInvokes cb args)
  then show ?thesis by (cases cb) (auto simp: operation_defs split: option.splits)
qed (auto simp: operation_defs split: option.splits)

lemma failCallback_run [simp]: "failCallback (run E as c) = failCallback c"
  by (induction as arbitrary: c) simp_all

lemma Connection_fail_called:
  "fail_called (effects (Connection E T opts u f)) =
     (if viable_from E (getSupportedTransports T (options_transport opts)) 0 then []
      else [case f of None \<Rightarrow> NOOP | Some g \<Rightarrow> g])"
  "transport (Connection E T opts u f) \<noteq> None \<longleftrightarrow>
     viable_from E (getSupportedTransports T (options_transport opts)) 0"
  "failCallback (Connection E T opts u f) = (case f of None \<Rightarrow> NOOP | Some g \<Rightarrow> g)"
proof -
  let ?ts = "getSupportedTransports T (options_transport opts)"
  let ?g = "case f of None \<Rightarrow> NOOP | Some g \<Rightarrow> g"
  have "fail_called (effects (Connection E T opts u f)) =
      (if viable_from E ?ts 0 then [] else [?g]) \<and>
    (transport (Connection E T opts u f) \<noteq> None \<longleftrightarrow> viable_from E ?ts 0) \<and>
    failCallback (Connection E T opts u f) = ?g"
  proof (cases rule: Connection_cases[of E T opts])
    case exhausted
    show ?thesis by (subst (1 2 3) Connection_exhausted[OF refl exhausted]) (simp add: exhausted)
  next
    case (found k)
    have v: "viable_from E ?ts 0" by (rule viable_fromI[OF _ found(1,2)]) simp
    show ?thesis
      by (subst (1 2 3) Connection_found[OF refl found(1) found(3) found(2)]) (simp add: v)
  qed
  then show "fail_called (effects (Connection E T opts u f)) =
     (if viable_from E ?ts 0 then [] else [?g])"
    and "transport (Connection E T opts u f) \<noteq> None \<longleftrightarrow> viable_from E ?ts 0"
    and "failCallback (Connection E T opts u f) = ?g"
    by blast+
qed

text \<open>
  While a transport is held the callback has not been called, and it is never called more
  than once, in a history where failure reports arrive only while a transport is held;
  the function called is the one stored.
\<close>

lemma fail_called_run:
  assumes "reports_while_active E as c"
    and "transport c \<noteq> None \<longrightarrow> fail_called (effects c) = []"
    and "fail_called (effects c) = [] \<or> fail_called (effects c) = [failCallback c]"
  shows "fail_called (effects (run E as c)) = [] \<or>
         fail_called (effects (run E as c)) = [failCallback c]"
  using assms
proof (induction as arbitrary: c)
  case Nil
  then show ?case by simp
next
  case (Cons a as)
  let ?c' = "snd (step E a c)"
  have r: "reports_while_active E as ?c'" using Cons.prems(1) by simp
  have "(transport ?c' \<noteq> None \<longrightarrow> fail_called (effects ?c') = []) \<and>
        (fail_called (effects ?c') = [] \<or> fail_called (effects ?c') = [failCallback ?c'])"
  proof (cases "case a of A_transportFail err \<Rightarrow> False | _ \<Rightarrow> True")
    case True
    from step_frame(2,3)[OF True, of E c] Cons.prems(2,3) show ?thesis by simp
  next
    case False
    then obtain err where a: "a = A_transportFail err" by (cases a) simp_all
    with Cons.prems(1) have "transport c \<noteq> None" by simp
    with Cons.prems(2) have z: "fail_called (effects c) = []" by simp
    show ?thesis
      using transport_onTransportFail[of E err c]
      by (simp add: a fail_called_onTransportFail z)
  qed
  then have "fail_called (effects (run E as ?c')) = [] \<or>
         fail_called (effects (run E as ?c')) = [failCallback ?c']"
    using Cons.IH[OF r] by blast
  then show ?case by simp
qed

text \<open>
  C1. Let \<open>onFail\<close> be the function given to the constructor as the total-failure
  callback (\<open>NOOP\<close> when none is given). The Connection stores it and keeps it over any
  history. Constructing a Connection calls \<open>onFail\<close> once when no candidate reports
  supported, and calls nothing as the total-failure callback otherwise. A failure report
  calls the stored function once when no candidate after the cursor reports supported, and
  not when one does; no other action calls it. When all candidates report unsupported,
  the constructor calls \<open>onFail\<close> exactly once, constructs no transport and leaves the
  transport null. Over a history in which failure reports arrive only while a transport
  is held, the calls are none or exactly one call of \<open>onFail\<close>.
\<close>

theorem onFail_once_per_exhaustion:
  assumes "ts = getSupportedTransports T (options_transport opts)"
    and "C = Connection E T opts u f"
    and "onFail = (case f of None \<Rightarrow> NOOP | Some g \<Rightarrow> g)"
  shows
    "failCallback C = onFail \<and>
     failCallback (run E as C) = onFail \<and>
     fail_called (effects C) = (if viable_from E ts 0 then [] else [onFail]) \<and>
     fail_called (effects (snd (onTransportFail E err c))) =
       fail_called (effects c) @
       (if viable_from E (transports c) (next_index c) then [] else [failCallback c]) \<and>
     ((case a of A_transportFail x \<Rightarrow> False | _ \<Rightarrow> True) \<longrightarrow>
        fail_called (effects (snd (step E a c))) = fail_called (effects c)) \<and>
     ((\<forall>i<length ts. \<not> isSupported E (entry_instance (ts ! i))) \<longrightarrow>
        fail_called (effects C) = [onFail] \<and> constructed (effects C) = [] \<and>
        transport C = None) \<and>
     (reports_while_active E as C \<longrightarrow>
        (fail_called (effects (run E as C)) = [] \<or>
         fail_called (effects (run E as C)) = [onFail]))"
proof -
  note cf = Connection_fail_called[of E T opts u f, folded assms]
  have 0: "failCallback C = onFail" "failCallback (run E as C) = onFail"
    using cf(3) by simp_all
  have 1: "fail_called (effects C) = (if viable_from E ts 0 then [] else [onFail])"
    by (rule cf(1))
  have 2: "fail_called (effects (snd (onTransportFail E err c))) =
       fail_called (effects c) @
       (if viable_from E (transports c) (next_index c) then [] else [failCallback c])"
    by (rule fail_called_onTransportFail)
  have 3: "(case a of A_transportFail x \<Rightarrow> False | _ \<Rightarrow> True) \<longrightarrow>
        fail_called (effects (snd (step E a c))) = fail_called (effects c)"
    using step_frame(3)[of a E c] by blast
  have 4: "(\<forall>i<length ts. \<not> isSupported E (entry_instance (ts ! i))) \<longrightarrow>
        fail_called (effects C) = [onFail] \<and> constructed (effects C) = [] \<and>
        transport C = None"
  proof
    assume "\<forall>i<length ts. \<not> isSupported E (entry_instance (ts ! i))"
    then have nv: "\<not> viable_from E ts 0"
      by (auto simp: viable_from_def list_ex_iff supported_at_def)
    have "constructed (effects C) = []"
      unfolding assms(2)
      by (subst Connection_exhausted[OF assms(1)[symmetric] nv]) simp
    with cf(1,2) nv show "fail_called (effects C) = [onFail] \<and> constructed (effects C) = [] \<and>
        transport C = None"
      by simp
  qed
  have 5: "reports_while_active E as C \<longrightarrow>
        (fail_called (effects (run E as C)) = [] \<or>
         fail_called (effects (run E as C)) = [onFail])"
  proof
    assume r: "reports_while_active E as C"
    have "fail_called (effects (run E as C)) = [] \<or>
         fail_called (effects (run E as C)) = [failCallback C]"
      by (rule fail_called_run[OF r]) (use cf in \<open>simp_all\<close>)
    then show "fail_called (effects (run E as C)) = [] \<or>
         fail_called (effects (run E as C)) = [onFail]"
      by (simp add: 0)
  qed
  from 0 1 2 3 4 5 show ?thesis by blast
qed

lemma example_options_candidates:
  "getSupportedTransports example_types (options_transport example_options) =
     [\<lparr>entry_options = Map.empty, entry_instance = WebsocketTransport\<rparr>,
      \<lparr>entry_options = [''transportType'' \<mapsto> JStr ''signalrCoreWebSockets'',
                         ''skipNegotiation'' \<mapsto> JBool True],
        entry_instance = SignalrCoreTransport\<rparr>]"
  by (simp add: getSupportedTransports_def options_transport_def example_options_def
      TRANSPORT_NAME_MAP_def example_types_def)

theorem onFail_once_per_exhaustion_witness:
  "failCallback (Connection (env_where (\<lambda>_. False)) example_types example_options
                   ''https://example.test/streaming'' (Some (Consumer 9))) = Consumer 9 \<and>
   fail_called (effects (Connection (env_where (\<lambda>_. False)) example_types example_options
                           ''https://example.test/streaming'' (Some (Consumer 9)))) =
     [Consumer 9] \<and>
   constructed (effects (Connection (env_where (\<lambda>_. False)) example_types example_options
                           ''https://example.test/streaming'' (Some (Consumer 9)))) = [] \<and>
   transport (Connection (env_where (\<lambda>_. False)) example_types example_options
                ''https://example.test/streaming'' (Some (Consumer 9))) = None \<and>
   fail_called (effects (Connection (env_where (\<lambda>_. True)) example_types example_options
                           ''https://example.test/streaming'' (Some (Consumer 9)))) = [] \<and>
   reports_while_active (env_where (\<lambda>_. True)) [A_transportFail None, A_transportFail None]
     (Connection (env_where (\<lambda>_. True)) example_types example_options
        ''https://example.test/streaming'' (Some (Consumer 9))) \<and>
   fail_called
     (effects (run (env_where (\<lambda>_. True)) [A_transportFail None, A_transportFail None]
                 (Connection (env_where (\<lambda>_. True)) example_types example_options
                    ''https://example.test/streaming'' (Some (Consumer 9))))) =
     [Consumer 9]"
proof -
  let ?none = "env_where (\<lambda>_. False)"
  let ?all = "env_where (\<lambda>_. True)"
  let ?ts = "getSupportedTransports example_types (options_transport example_options)"
  let ?Cn = "Connection ?none example_types example_options
               ''https://example.test/streaming'' (Some (Consumer 9))"
  let ?Ca = "Connection ?all example_types example_options
               ''https://example.test/streaming'' (Some (Consumer 9))"
  let ?c1 = "snd (onTransportFail ?all None ?Ca)"
  have len: "length ?ts = 2" by (simp add: example_options_candidates)
  have a: "\<forall>i<length ?ts. \<not> isSupported ?none (entry_instance (?ts ! i))"
    by (simp add: env_where_def)
  have v0: "viable_from ?all ?ts 0"
    by (rule viable_fromI[where k = 0]) (simp_all add: len supported_at_def env_where_def)
  have Ca: "transportIndex ?Ca = Some 0" "transports ?Ca = ?ts" "transport ?Ca \<noteq> None"
    by (subst Connection_found[OF refl, of 0];
        simp add: len supported_at_def env_where_def)+
  have n0: "next_index ?Ca = 1" by (simp add: next_index_def Ca(1))
  have v1: "viable_from ?all (transports ?Ca) (next_index ?Ca)"
    unfolding n0 Ca(2)
    by (rule viable_fromI[where k = 1]) (simp_all add: len supported_at_def env_where_def)
  then obtain k where k: "next_index ?Ca \<le> k" "k < length (transports ?Ca)"
    "transportIndex ?c1 = Some k"
    by (cases rule: onTransportFail_cases[of ?all ?Ca None]) simp_all
  from k(1,2) have "k = 1" unfolding n0 Ca(2) len by simp
  with k(3) have "next_index ?c1 = 2" by (simp add: next_index_def)
  moreover have "transports ?c1 = ?ts" by (simp add: Ca(2))
  ultimately have v2: "\<not> viable_from ?all (transports ?c1) (next_index ?c1)"
    by (simp add: viable_from_def len)
  have t1: "transport ?c1 \<noteq> None"
    using transport_onTransportFail[of ?all None ?Ca] v1 by blast
  have b: "reports_while_active ?all [A_transportFail None, A_transportFail None] ?Ca"
    using Ca(3) t1 by simp
  have o: "Consumer 9 = (case Some (Consumer 9) of None \<Rightarrow> NOOP | Some g \<Rightarrow> g)" by simp
  note n = onFail_once_per_exhaustion[OF refl refl o, where E = ?none and T = example_types
      and opts = example_options and u = "''https://example.test/streaming''"
      and as = "[]" and c = ?Cn and err = None and a = A_stop]
  note w = onFail_once_per_exhaustion[OF refl refl o, where E = ?all and T = example_types
      and opts = example_options and u = "''https://example.test/streaming''"
      and as = "[A_transportFail None, A_transportFail None]"
      and c = ?c1 and err = None and a = A_stop]
  from n a have 1: "failCallback ?Cn = Consumer 9" "fail_called (effects ?Cn) = [Consumer 9]"
    "constructed (effects ?Cn) = []" "transport ?Cn = None"
    by blast+
  from w have "fail_called (effects ?Ca) = (if viable_from ?all ?ts 0 then [] else [Consumer 9])"
    by blast
  with v0 have 2: "fail_called (effects ?Ca) = []" by simp
  from w have "fail_called (effects (snd (onTransportFail ?all None ?c1))) =
      fail_called (effects ?c1) @
      (if viable_from ?all (transports ?c1) (next_index ?c1) then [] else [failCallback ?c1])"
    by blast
  with v2 have "fail_called (effects (snd (onTransportFail ?all None ?c1))) =
      fail_called (effects ?c1) @ [failCallback ?c1]"
    by simp
  then have ne: "fail_called (effects (run ?all [A_transportFail None, A_transportFail None] ?Ca))
      \<noteq> []"
    by simp
  from w b have "fail_called (effects (run ?all [A_transportFail None, A_transportFail None] ?Ca)) = []
      \<or> fail_called (effects (run ?all [A_transportFail None, A_transportFail None] ?Ca)) =
        [Consumer 9]"
    by blast
  with ne have 3: "fail_called (effects (run ?all [A_transportFail None, A_transportFail None] ?Ca))
      = [Consumer 9]"
    by blast
  from 1 2 3 b show ?thesis by blast
qed

subsection \<open>The cursor across a history\<close>

lemma cursor_inv_Connection: "cursor_inv (Connection E T opts u f)"
proof (cases rule: Connection_cases[of E T opts])
  case exhausted
  show ?thesis
    by (subst Connection_exhausted[OF refl exhausted]) (simp add: cursor_inv_def)
next
  case (found k)
  show ?thesis
    by (subst Connection_found[OF refl found(1) found(3) found(2)])
       (simp add: cursor_inv_def found(1) instance_at_def)
qed

lemma Connection_frame:
  "transports (Connection E T opts u f) = getSupportedTransports T (options_transport opts)"
  "baseUrl (Connection E T opts u f) = u"
proof -
  have "transports (Connection E T opts u f) = getSupportedTransports T (options_transport opts)
    \<and> baseUrl (Connection E T opts u f) = u"
  proof (cases rule: Connection_cases[of E T opts])
    case exhausted
    show ?thesis by (subst (1 2) Connection_exhausted[OF refl exhausted]) simp
  next
    case (found k)
    show ?thesis by (subst (1 2) Connection_found[OF refl found(1) found(3) found(2)]) simp
  qed
  then show
    "transports (Connection E T opts u f) = getSupportedTransports T (options_transport opts)"
    "baseUrl (Connection E T opts u f) = u"
    by blast+
qed

lemma cursor_inv_onTransportFail:
  assumes "cursor_inv c"
  shows "cursor_inv (snd (onTransportFail E err c))"
proof -
  from assms obtain i where i: "transportIndex c = Some i"
    by (auto simp: cursor_inv_def split: option.splits)
  then have n: "next_index c = Suc i" by (simp add: next_index_def)
  from assms i have s: "sorted_wrt (<) (map origin (constructed (effects c)))"
    and b: "\<forall>x\<in>set (constructed (effects c)). origin x \<le> i"
    by (auto simp: cursor_inv_def list_all_iff)
  show ?thesis
  proof (cases rule: onTransportFail_cases[of E c err])
    case exhausted
    with s b show ?thesis
      by (auto simp: cursor_inv_def n list_all_iff max_def)
  next
    case (found k)
    from found(2) n have "i < k" by simp
    with s b found(3) show ?thesis
      by (simp add: found(4) cursor_inv_def sorted_wrt_append list_all_iff instance_at_def)
         fastforce
  qed
qed

lemma cursor_inv_step:
  assumes "cursor_inv c"
  shows "cursor_inv (snd (step E a c))"
proof (cases "case a of A_transportFail err \<Rightarrow> False | _ \<Rightarrow> True")
  case True
  from step_frame(1,2,4)[OF True, of E c] assms show ?thesis
    by (auto simp: cursor_inv_def split: option.splits)
next
  case False
  then obtain err where "a = A_transportFail err" by (cases a) simp_all
  with assms show ?thesis by (simp add: cursor_inv_onTransportFail)
qed

lemma cursor_inv_run: "cursor_inv c \<Longrightarrow> cursor_inv (run E as c)"
  by (induction as arbitrary: c) (simp_all add: cursor_inv_step)

lemma cursor_step_mono:
  assumes "transportIndex c = Some i"
  shows "\<exists>j. transportIndex (snd (step E a c)) = Some j \<and> i \<le> j"
proof (cases "case a of A_transportFail err \<Rightarrow> False | _ \<Rightarrow> True")
  case True
  from step_frame(1)[OF True, of E c] assms show ?thesis by simp
next
  case False
  then obtain err where a: "a = A_transportFail err" by (cases a) simp_all
  from assms have n: "next_index c = Suc i" by (simp add: next_index_def)
  show ?thesis
    by (cases rule: onTransportFail_cases[of E c err]) (use n in \<open>auto simp: a max_def\<close>)
qed

lemma cursor_run_mono:
  "transportIndex c = Some i \<Longrightarrow> \<exists>j. transportIndex (run E as c) = Some j \<and> i \<le> j"
proof (induction as arbitrary: c i)
  case Nil
  then show ?case by simp
next
  case (Cons a as)
  from cursor_step_mono[OF Cons.prems, of E a] obtain j where
    j: "transportIndex (snd (step E a c)) = Some j" "i \<le> j" by blast
  from Cons.IH[OF j(1)] j(2) show ?case by (auto intro: le_trans)
qed

lemma effects_step: "\<exists>es. effects (snd (step E a c)) = effects c @ es"
proof (cases a)
  case (A_transportFail err)
  show ?thesis
    by (cases rule: onTransportFail_cases[of E c err]) (simp_all add: A_transportFail)
next
  case (A_transportInvokes cb args)
  then show ?thesis
    by (cases cb) (auto simp: operation_defs split: option.splits)
qed (auto simp: operation_defs split: option.splits)

lemma effects_run: "\<exists>es. effects (run E as c) = effects c @ es"
proof (induction as arbitrary: c)
  case Nil
  then show ?case by simp
next
  case (Cons a as)
  from effects_step[of E a c] obtain es where 1: "effects (snd (step E a c)) = effects c @ es"
    by blast
  from Cons.IH[of "snd (step E a c)"] obtain es' where
    "effects (run E as (snd (step E a c))) = effects (snd (step E a c)) @ es'" by blast
  with 1 show ?case by simp
qed

text \<open>
  C5. Take a Connection, any point \<open>c\<close> of any history of it and any later point \<open>c'\<close>.
  The cursor is set at both points and is not smaller at the later one. The effects at the
  later point extend those at the earlier one, and the positions of the candidates from
  which instances have been constructed increase strictly, so that none occurs twice. The
  candidate list does not change. The transport is null and the cursor is past the last
  index, or the transport is the instance constructed from the candidate at the cursor,
  which is the last instance constructed.
\<close>

theorem cursor_only_moves_forward:
  assumes "ts = getSupportedTransports T (options_transport opts)"
    and "c = run E as (Connection E T opts u f)"
    and "c' = run E bs c"
  shows
    "(\<exists>i j. transportIndex c = Some i \<and> transportIndex c' = Some j \<and> i \<le> j) \<and>
     (\<exists>es. effects c' = effects c @ es) \<and>
     sorted_wrt (<) (map origin (constructed (effects c))) \<and>
     distinct (map origin (constructed (effects c))) \<and>
     transports c = ts \<and>
     (case transport c of
        None \<Rightarrow> (\<exists>i. transportIndex c = Some i \<and> length ts \<le> i)
      | Some tr \<Rightarrow>
          transportIndex c = Some (origin tr) \<and> origin tr < length ts \<and>
          tr = instance_at ts u (origin tr) \<and>
          constructed (effects c) \<noteq> [] \<and> last (constructed (effects c)) = tr)"
proof -
  have inv: "cursor_inv c"
    unfolding assms(2) by (rule cursor_inv_run) (rule cursor_inv_Connection)
  have fr: "transports c = ts" "baseUrl c = u"
    unfolding assms(1,2) by (simp_all add: Connection_frame)
  from inv obtain i where i: "transportIndex c = Some i"
    by (auto simp: cursor_inv_def split: option.splits)
  from cursor_run_mono[OF i, of E bs] have 1:
    "\<exists>i j. transportIndex c = Some i \<and> transportIndex c' = Some j \<and> i \<le> j"
    unfolding assms(3) using i by blast
  have 2: "\<exists>es. effects c' = effects c @ es"
    unfolding assms(3) by (rule effects_run)
  from inv i have 3: "sorted_wrt (<) (map origin (constructed (effects c)))"
    by (simp add: cursor_inv_def)
  then have 4: "distinct (map origin (constructed (effects c)))"
    by (simp add: strict_sorted_iff)
  have 5: "case transport c of
        None \<Rightarrow> (\<exists>i. transportIndex c = Some i \<and> length ts \<le> i)
      | Some tr \<Rightarrow>
          transportIndex c = Some (origin tr) \<and> origin tr < length ts \<and>
          tr = instance_at ts u (origin tr) \<and>
          constructed (effects c) \<noteq> [] \<and> last (constructed (effects c)) = tr"
    using inv i fr by (auto simp: cursor_inv_def instance_at_def split: option.splits)
  from 1 2 3 4 5 fr(1) show ?thesis by blast
qed

theorem cursor_only_moves_forward_witness:
  "sorted_wrt (<)
     (map origin (constructed (effects (run (env_where (\<lambda>_. True)) [A_transportFail None]
                                          example_connection)))) \<and>
   distinct
     (map origin (constructed (effects (run (env_where (\<lambda>_. True)) [A_transportFail None]
                                          example_connection)))) \<and>
   map origin (constructed (effects (run (env_where (\<lambda>_. True)) [A_transportFail None]
                                       example_connection))) = [0, 1] \<and>
   transportIndex (run (env_where (\<lambda>_. True)) [A_transportFail None] example_connection) =
     Some 1 \<and>
   transports (run (env_where (\<lambda>_. True)) [A_transportFail None] example_connection) =
     getSupportedTransports example_types (options_transport example_options)"
proof -
  let ?E = "env_where (\<lambda>_. True)"
  let ?c = "run ?E [A_transportFail None] example_connection"
  have h: "?c = run ?E [A_transportFail None]
      (Connection ?E example_types example_options ''https://example.test/streaming'' None)"
    by (simp add: example_connection_def)
  have f: "onTransportFail ?E None example_connection =
    (Normal,
     example_connection\<lparr>transportIndex := Some 1,
       transport := Some (instance_at (transports example_connection)
                            (baseUrl example_connection) 1),
       effects := effects example_connection
         @ [Log Info ''Transport failed'' (D_error None # getLogDetails example_connection)]
         @ probes (transports example_connection) (next_index example_connection) (Suc 1)
         @ [Constructed (instance_at (transports example_connection)
                           (baseUrl example_connection) 1),
            Log Debug ''Next supported Transport found''
              [D_name (instance_at (transports example_connection)
                         (baseUrl example_connection) 1)],
            TransportCall (instance_at (transports example_connection)
                             (baseUrl example_connection) 1)
              (SetReceivedCallback (receiveCallback example_connection)),
            TransportCall (instance_at (transports example_connection)
                             (baseUrl example_connection) 1)
              (SetStateChangedCallback (stateChangedCallback example_connection)),
            TransportCall (instance_at (transports example_connection)
                             (baseUrl example_connection) 1)
              (SetUnauthorizedCallback (unauthorizedCallback example_connection)),
            TransportCall (instance_at (transports example_connection)
                             (baseUrl example_connection) 1)
              (SetConnectionSlowCallback (connectionSlowCallback example_connection))]
         @ (if state example_connection = STATE_STARTED then
              [TransportCall (instance_at (transports example_connection)
                                (baseUrl example_connection) 1)
                 (UpdateQuery (authToken example_connection) (contextId example_connection)
                    (authExpiry example_connection) None),
               TransportCall (instance_at (transports example_connection)
                                (baseUrl example_connection) 1)
                 (Start (spread (entry_options (transports example_connection ! 1))
                           (options example_connection))
                    (startCallback example_connection))]
            else [])\<rparr>)"
    by (rule onTransportFail_found)
       (simp_all add: example_connection_eq next_index_def supported_at_def env_where_def)
  have v: "map origin (constructed (effects ?c)) = [0, 1]" "transportIndex ?c = Some 1"
    by (simp_all add: f) (simp add: example_connection_eq instance_at_def)
  from cursor_only_moves_forward[OF refl h refl, of "[]"] v
  show ?thesis by blast
qed

subsection \<open>The guard without a transport\<close>

text \<open>
  The warning of the guard reads the name of the transport. After the candidates are
  exhausted the transport is null, and a call of a wrapper in the state disposed throws
  instead of logging. The history below reaches such a state: the second failure report
  exhausts the two candidates.
\<close>

lemma guard_throws_without_transport:
  "state c = STATE_DISPOSED \<Longrightarrow> transport c = None \<Longrightarrow>
   invoke (Guarded g kind) args c = (TypeError, c)"
  by (simp add: ensureValidState_def)

lemma guard_throws_after_exhaustion:
  "invoke (Guarded (Consumer 2) ''receivedCallback'') [JStr ''message'']
     (run (env_where (\<lambda>_. True))
        [A_setReceivedCallback (Consumer 2), A_transportFail None, A_transportFail None,
         A_dispose]
        example_connection) =
   (TypeError,
    run (env_where (\<lambda>_. True))
      [A_setReceivedCallback (Consumer 2), A_transportFail None, A_transportFail None,
       A_dispose]
      example_connection)"
proof -
  let ?E = "env_where (\<lambda>_. True)"
  let ?c0 = "setReceivedCallback (Consumer 2) example_connection"
  let ?c1 = "snd (onTransportFail ?E None ?c0)"
  let ?c2 = "snd (onTransportFail ?E None ?c1)"
  have c0: "transportIndex ?c0 = Some 0"
    "transports ?c0 =
       [\<lparr>entry_options = Map.empty, entry_instance = WebsocketTransport\<rparr>,
        \<lparr>entry_options = [''transportType'' \<mapsto> JStr ''signalrCoreWebSockets'',
                           ''skipNegotiation'' \<mapsto> JBool True],
          entry_instance = SignalrCoreTransport\<rparr>]"
    by (simp_all add: setReceivedCallback_def example_connection_eq emit_def)
  have n0: "next_index ?c0 = 1" by (simp add: next_index_def c0(1))
  have "viable_from ?E (transports ?c0) (next_index ?c0)"
    unfolding n0 c0(2)
    by (rule viable_fromI[where k = 1]) (simp_all add: supported_at_def env_where_def)
  then obtain k where k: "next_index ?c0 \<le> k" "k < length (transports ?c0)"
    "transportIndex ?c1 = Some k"
    by (cases rule: onTransportFail_cases[of ?E ?c0 None]) simp_all
  from k(1,2) have "k = 1"
    unfolding n0 c0(2) by simp
  with k(3) have "next_index ?c1 = 2" by (simp add: next_index_def)
  moreover have "transports ?c1 = transports ?c0" by simp
  ultimately have "\<not> viable_from ?E (transports ?c1) (next_index ?c1)"
    by (simp add: viable_from_def c0(2))
  then have "transport ?c2 = None"
    using transport_onTransportFail[of ?E None ?c1] by blast
  then show ?thesis
    by (simp add: ensureValidState_def dispose_def)
qed

end
